theory Spec2Isabelle
  imports Main "HOL-Library.Sublist"
begin

section \<open>JavaScript strings and arrays\<close>

text \<open>
  Strings are character lists. \<open>arrayJoin sep xs\<close> is \<^verbatim>\<open>xs.join(sep)\<close>;
  \<open>indexOf s t\<close> is \<^verbatim>\<open>s.indexOf(t)\<close>: the position of the first occurrence of
  \<open>t\<close> in \<open>s\<close>, or \<open>-1\<close> when there is none.
\<close>

fun arrayJoin :: "string \<Rightarrow> string list \<Rightarrow> string" where
  "arrayJoin sep [] = []"
| "arrayJoin sep [x] = x"
| "arrayJoin sep (x # y # ys) = x @ sep @ arrayJoin sep (y # ys)"

fun indexOf :: "string \<Rightarrow> string \<Rightarrow> int" where
  "indexOf [] t = (if t = [] then 0 else - 1)"
| "indexOf (c # cs) t =
     (if prefix t (c # cs) then 0
      else (let r = indexOf cs t in if r < 0 then - 1 else r + 1))"

text \<open>
  Truthiness of an optional string, as \<^verbatim>\<open>||\<close> and \<^verbatim>\<open>if\<close> test it:
  \<^verbatim>\<open>undefined\<close> and the empty string are falsy.
\<close>

fun truthy :: "string option \<Rightarrow> bool" where
  "truthy None = False"
| "truthy (Some s) = (s \<noteq> [])"

section \<open>The path module of Node.js, POSIX flavour\<close>

text \<open>
  The build helper calls \<^verbatim>\<open>path.normalize\<close>, \<^verbatim>\<open>path.join\<close>, \<^verbatim>\<open>path.dirname\<close>,
  \<^verbatim>\<open>path.parse\<close> and \<^verbatim>\<open>path.resolve\<close>. They belong to the platform, not to the
  repository; they are modelled here on segments, for the POSIX separator \<open>/\<close>.
\<close>

fun splitSlash :: "string \<Rightarrow> string list" where
  "splitSlash [] = [[]]"
| "splitSlash (c # cs) =
     (if c = CHR ''/'' then [] # splitSlash cs
      else (case splitSlash cs of [] \<Rightarrow> [[c]] | s # ss \<Rightarrow> (c # s) # ss))"

text \<open>
  One step of \<^verbatim>\<open>normalizeString\<close>: \<open>res\<close> holds the segments kept so far, the last
  one first. Empty segments and \<open>.\<close> are dropped; \<open>..\<close> removes the last kept segment
  unless that is \<open>..\<close> itself or nothing is kept, in which case it is kept when the path
  is relative and dropped when it is absolute.
\<close>

definition normStep :: "bool \<Rightarrow> string list \<Rightarrow> string \<Rightarrow> string list" where
  "normStep allowAboveRoot res seg =
     (if seg = [] \<or> seg = ''.'' then res
      else if seg = ''..'' then
        (case res of
           [] \<Rightarrow> if allowAboveRoot then [''..''] else []
         | kept # below \<Rightarrow>
             if kept \<noteq> ''..'' then below
             else if allowAboveRoot then ''..'' # res else res)
      else seg # res)"

definition normSegments :: "bool \<Rightarrow> string list \<Rightarrow> string list" where
  "normSegments allowAboveRoot segs = rev (foldl (normStep allowAboveRoot) [] segs)"

definition normalizeString :: "string \<Rightarrow> bool \<Rightarrow> string" where
  "normalizeString path allowAboveRoot =
     arrayJoin ''/'' (normSegments allowAboveRoot (splitSlash path))"

definition isAbsolute :: "string \<Rightarrow> bool" where
  "isAbsolute path = (case path of [] \<Rightarrow> False | c # _ \<Rightarrow> c = CHR ''/'')"

definition trailingSeparator :: "string \<Rightarrow> bool" where
  "trailingSeparator path = (path \<noteq> [] \<and> last path = CHR ''/'')"

definition normalize :: "string \<Rightarrow> string" where
  "normalize path =
     (if path = [] then ''.''
      else
        let p = normalizeString path (\<not> isAbsolute path) in
        if p = [] then
          (if isAbsolute path then ''/''
           else if trailingSeparator path then ''./'' else ''.'')
        else
          (if isAbsolute path then ''/'' else []) @ p @
          (if trailingSeparator path then ''/'' else []))"

definition join :: "string list \<Rightarrow> string" where
  "join args =
     (let joined = arrayJoin ''/'' (filter (\<lambda>arg. arg \<noteq> []) args)
      in if joined = [] then ''.'' else normalize joined)"

text \<open>
  \<^verbatim>\<open>path.dirname\<close> scans from the end, never looking at the first character: it skips
  the trailing separators, then the last segment, and cuts at the separator in front of it.
\<close>

definition dirname :: "string \<Rightarrow> string" where
  "dirname path =
     (if path = [] then ''.''
      else
        let hasRoot = isAbsolute path;
            rest = dropWhile (\<lambda>c. c \<noteq> CHR ''/'')
                     (dropWhile (\<lambda>c. c = CHR ''/'') (rev (tl path)))
        in if rest = [] then (if hasRoot then ''/'' else ''.'')
           else if hasRoot \<and> length rest = 1 then ''//''
           else take (length rest) path)"

record parsedPath =
  root :: string
  dir :: string
  base :: string
  ext :: string
  name :: string

text \<open>
  \<^verbatim>\<open>path.parse\<close>: \<open>base\<close> is the last segment (trailing separators ignored). The
  extension starts at the last dot of \<open>base\<close>, unless there is no dot, the dot is the
  first character of \<open>base\<close>, or \<open>base\<close> is exactly \<open>..\<close>; \<open>splitExt\<close> gives the
  name and the extension.
\<close>

definition lastDot :: "string \<Rightarrow> nat option" where
  "lastDot b =
     (if CHR ''.'' \<in> set b
      then Some (length b - 1 - length (takeWhile (\<lambda>c. c \<noteq> CHR ''.'') (rev b)))
      else None)"

definition splitExt :: "string \<Rightarrow> string \<times> string" where
  "splitExt b =
     (case lastDot b of
        None \<Rightarrow> (b, [])
      | Some startDot \<Rightarrow>
          if startDot = 0 \<or> b = ''..'' then (b, [])
          else (take startDot b, drop startDot b))"

definition parse :: "string \<Rightarrow> parsedPath" where
  "parse path =
     (if path = [] then \<lparr>root = [], dir = [], base = [], ext = [], name = []\<rparr>
      else
        let isAbs = isAbsolute path;
            start = (if isAbs then 1 else 0);
            trimmed = dropWhile (\<lambda>c. c = CHR ''/'') (rev (drop start path));
            b = rev (takeWhile (\<lambda>c. c \<noteq> CHR ''/'') trimmed);
            lead = dropWhile (\<lambda>c. c \<noteq> CHR ''/'') trimmed;
            startPart = (if lead = [] then 0 else start + length lead);
            d = (if startPart > 0 then take (startPart - 1) path
                 else if isAbs then ''/'' else [])
        in \<lparr>root = (if isAbs then ''/'' else []), dir = d, base = b,
            ext = snd (splitExt b), name = fst (splitExt b)\<rparr>)"

text \<open>
  \<^verbatim>\<open>path.resolve(p)\<close> with one argument: \<open>p\<close> is taken relative to the working
  directory \<open>cwd\<close> unless it is absolute; the result carries no trailing separator.
\<close>

definition path_resolve :: "string \<Rightarrow> string \<Rightarrow> string" where
  "path_resolve cwd p =
     (let r1 = (if p = [] then [] else p @ ''/'');
          r2 = (if isAbsolute p \<or> cwd = [] then r1 else cwd @ ''/'' @ r1);
          resolvedAbsolute = (isAbsolute p \<or> isAbsolute cwd);
          resolvedPath = normalizeString r2 (\<not> resolvedAbsolute)
      in if resolvedAbsolute then ''/'' @ resolvedPath
         else if resolvedPath \<noteq> [] then resolvedPath else ''.'')"

section \<open>Path resolution against a configured root\<close>

text \<open>
  Lines 214--223 of \<^verbatim>\<open>compileHbsTemplate\<close> treat \<open>source\<close> against
  \<open>settings.src\<close> and \<open>target\<close> against \<open>settings.dist\<close> in the same way: both
  strings are normalized, and the candidate is joined under the root unless the root
  occurs in it at index 0.
\<close>

definition resolvePath :: "string \<Rightarrow> string \<Rightarrow> string" where
  "resolvePath rootDir candidate =
     (let r = normalize rootDir;
          c = normalize candidate
      in if indexOf c r \<noteq> 0 then join [r, c] else c)"

section \<open>Errors, promises and the file system\<close>

text \<open>
  \<open>IOError\<close> carries the path at which a read, a write or a directory creation failed;
  \<open>TypeError\<close> is the error of the language runtime (a missing argument, a property of
  \<^verbatim>\<open>undefined\<close>); \<open>LessError\<close> carries the string with which
  \<^verbatim>\<open>buildBootstrap3\<close> rejects; \<open>ExternalError\<close> is an error of a library
  (template engine, minifier, Sass compiler).
\<close>

datatype error =
    IOError string
  | TypeError string
  | LessError string
  | ExternalError string

datatype 'a promise = Pending | Resolved 'a | Rejected error

text \<open>Settling a promise that is already settled has no effect.\<close>

fun reject :: "error \<Rightarrow> 'a promise \<Rightarrow> 'a promise" where
  "reject e Pending = Rejected e"
| "reject e p = p"

fun resolve_with :: "'a \<Rightarrow> 'a promise \<Rightarrow> 'a promise" where
  "resolve_with v Pending = Resolved v"
| "resolve_with v p = p"

text \<open>
  The file system: the text of every regular file, the directories, and the paths at which
  creating a directory or writing a file fails (\<open>locked\<close>). Paths are compared as
  strings. \<open>mkdirp_sync\<close> records the directory it is asked for, not the ancestors it
  creates on the way. Text encodings are not modelled: the encoding argument is carried
  and ignored.
\<close>

record filesystem =
  fileText :: "string \<rightharpoonup> string"
  dirSet :: "string set"
  locked :: "string set"

fun readFileSync :: "filesystem \<Rightarrow> string option \<Rightarrow> string \<Rightarrow> error + string" where
  "readFileSync fs None encoding = Inl (TypeError ''path must be a string'')"
| "readFileSync fs (Some p) encoding =
     (case fileText fs p of None \<Rightarrow> Inl (IOError p) | Some text \<Rightarrow> Inr text)"

definition existsSync :: "filesystem \<Rightarrow> string \<Rightarrow> bool" where
  "existsSync fs p = (fileText fs p \<noteq> None \<or> p \<in> dirSet fs)"

definition mkdirp_sync :: "filesystem \<Rightarrow> string \<Rightarrow> error + filesystem" where
  "mkdirp_sync fs d =
     (if d \<in> locked fs then Inl (IOError d) else Inr (fs\<lparr>dirSet := insert d (dirSet fs)\<rparr>))"

definition writeFileSync :: "filesystem \<Rightarrow> string \<Rightarrow> string \<Rightarrow> string \<Rightarrow> error + filesystem" where
  "writeFileSync fs p text encoding =
     (if p \<in> locked fs then Inl (IOError p)
      else Inr (fs\<lparr>fileText := (fileText fs)(p \<mapsto> text)\<rparr>))"

section \<open>The Build class: settings\<close>

record IBuildSettings =
  src :: "string option"
  dist :: "string option"
  fileEncoding :: "string option"

record buildSettings =
  srcDir :: string
  distDir :: string
  encoding :: string

fun orDefault :: "string option \<Rightarrow> string \<Rightarrow> string" where
  "orDefault None d = d"
| "orDefault (Some s) d = (if s = [] then d else s)"

text \<open>The constructor (lines 24--32): every missing or empty setting takes its default.\<close>

definition Build :: "IBuildSettings \<Rightarrow> buildSettings" where
  "Build settings =
     \<lparr>srcDir = orDefault (src settings) ''./src'',
      distDir = orDefault (dist settings) ''./dist'',
      encoding = orDefault (fileEncoding settings) ''utf-8''\<rparr>"

definition EOL :: string where
  "EOL = [CHR 0x0A]"

section \<open>Writing a result to \<open>distPath\<close>\<close>

record IDistPath =
  distPath :: "string option"

text \<open>
  \<^verbatim>\<open>concatFilesContent\<close>, \<^verbatim>\<open>minifyJsContent\<close> and \<^verbatim>\<open>minifyCssContent\<close> end with the
  same block: when \<open>distPath\<close> is truthy, create its parent directory and write the text.
  The result is the error thrown, if any, and the file system as the block leaves it.
\<close>

fun writeIfDist ::
  "buildSettings \<Rightarrow> filesystem \<Rightarrow> string option \<Rightarrow> string \<Rightarrow> error option \<times> filesystem" where
  "writeIfDist settings fs None text = (None, fs)"
| "writeIfDist settings fs (Some d) text =
     (if d = [] then (None, fs)
      else
        (case mkdirp_sync fs (dirname d) of
           Inl e \<Rightarrow> (Some e, fs)
         | Inr fs1 \<Rightarrow>
             (case writeFileSync fs1 d text (encoding settings) of
                Inl e \<Rightarrow> (Some e, fs1)
              | Inr fs2 \<Rightarrow> (None, fs2))))"

section \<open>Minifiers\<close>

record IMinifyContent = IDistPath +
  content :: "string option"
  srcPath :: "string option"

record MinifyOutput =
  code :: string
  mapJson :: string

record CleanCSSOutput =
  styles :: string

text \<open>\<open>jsOr a b\<close> is \<^verbatim>\<open>a || b\<close> for an optional string \<open>a\<close>.\<close>

fun jsOr :: "string option \<Rightarrow> error + string \<Rightarrow> error + string" where
  "jsOr None b = b"
| "jsOr (Some a) b = (if a = [] then b else Inr a)"

text \<open>
  The minifiers are libraries: \<open>uglify\<close> stands for \<^verbatim>\<open>uglifyJS.minify\<close> with the
  options of line 168, \<open>cleancss\<close> for \<^verbatim>\<open>new CleanCSS({}).minify\<close>. Either may throw.
\<close>

definition minifyJsContent ::
  "buildSettings \<Rightarrow> (string \<Rightarrow> error + MinifyOutput) \<Rightarrow> filesystem \<Rightarrow> IMinifyContent \<Rightarrow>
   (error + MinifyOutput) \<times> filesystem" where
  "minifyJsContent settings uglify fs params =
     (case jsOr (content params) (readFileSync fs (srcPath params) (encoding settings)) of
        Inl e \<Rightarrow> (Inl e, fs)
      | Inr text \<Rightarrow>
          (case uglify text of
             Inl e \<Rightarrow> (Inl e, fs)
           | Inr minifiedContent \<Rightarrow>
               (case writeIfDist settings fs (distPath params) (code minifiedContent) of
                  (Some e, fs') \<Rightarrow> (Inl e, fs')
                | (None, fs') \<Rightarrow> (Inr minifiedContent, fs'))))"

definition minifyCssContent ::
  "buildSettings \<Rightarrow> (string \<Rightarrow> error + CleanCSSOutput) \<Rightarrow> filesystem \<Rightarrow> IMinifyContent \<Rightarrow>
   (error + CleanCSSOutput) \<times> filesystem" where
  "minifyCssContent settings cleancss fs params =
     (case jsOr (content params) (readFileSync fs (srcPath params) (encoding settings)) of
        Inl e \<Rightarrow> (Inl e, fs)
      | Inr text \<Rightarrow>
          (case cleancss text of
             Inl e \<Rightarrow> (Inl e, fs)
           | Inr minifiedContent \<Rightarrow>
               (case writeIfDist settings fs (distPath params) (styles minifiedContent) of
                  (Some e, fs') \<Rightarrow> (Inl e, fs')
                | (None, fs') \<Rightarrow> (Inr minifiedContent, fs'))))"

section \<open>Style sheets from Sass\<close>

record 'd IData =
  data :: "'d option"

record IBuildCustomCssFromScss = "string IData" +
  "file" :: "string option"
  outputStyle :: "string option"
  outFile :: "string option"
  sourceMap :: "(bool + string) option"
  sourceMapContents :: "bool option"

record sassResult =
  css :: string
  cssMap :: "string option"

text \<open>
  Line 130 parses as \<^verbatim>\<open>data = (data || file) ? fs.readFileSync(file, ...).toString() : null\<close>:
  the conditional operator binds weaker than \<^verbatim>\<open>||\<close>. An exception thrown in the
  executor rejects the promise. \<open>sass\<close> stands for \<^verbatim>\<open>sass.render\<close> and receives the
  options of line 134; the delay of 50 ms before the call is not modelled.
\<close>

definition buildCustomCssFromScss ::
  "buildSettings \<Rightarrow> (IBuildCustomCssFromScss \<Rightarrow> error + sassResult) \<Rightarrow> filesystem \<Rightarrow>
   IBuildCustomCssFromScss \<Rightarrow> sassResult promise" where
  "buildCustomCssFromScss settings sass fs params =
     (case (if truthy (data params) \<or> truthy (file params)
            then map_sum id Some (readFileSync fs (file params) (encoding settings))
            else Inr None) of
        Inl e \<Rightarrow> reject e Pending
      | Inr data' \<Rightarrow>
          (case sass (params\<lparr>data := data',
                         outputStyle := Some (orDefault (outputStyle params) ''compressed'')\<rparr>) of
             Inl err \<Rightarrow> reject err Pending
           | Inr result \<Rightarrow> resolve_with result Pending))"

section \<open>Templates\<close>

text \<open>
  Objects live in a heap, so that the caller's \<open>data\<close> object and the object handed to
  the template are distinct things. A property value is a primitive or a reference.
\<close>

datatype jsValue = JNull | JBool bool | JNumber int | JString string | JRef nat

type_synonym object = "string \<rightharpoonup> jsValue"

record heap =
  objects :: "nat \<rightharpoonup> object"
  nextAddr :: nat

definition allocObject :: "heap \<Rightarrow> object \<Rightarrow> nat \<times> heap" where
  "allocObject h obj =
     (nextAddr h, h\<lparr>objects := (objects h)(nextAddr h \<mapsto> obj), nextAddr := Suc (nextAddr h)\<rparr>)"

text \<open>The own properties that \<^verbatim>\<open>{...data}\<close> copies; none for \<^verbatim>\<open>undefined\<close>.\<close>

definition ownProperties :: "heap \<Rightarrow> nat option \<Rightarrow> object" where
  "ownProperties h ref =
     (case ref of
        None \<Rightarrow> Map.empty
      | Some a \<Rightarrow> (case objects h a of None \<Rightarrow> Map.empty | Some obj \<Rightarrow> obj))"

record ICompileHbsTemplate = "nat IData" +
  source :: string
  target :: string

record ICompileHbsTemplates = "nat IData" +
  files :: "(string \<times> string) list"

record hbsResult =
  targetBody :: string
  targetPath :: string

text \<open>
  \<open>hbs\<close> stands for \<^verbatim>\<open>Handlebars.compile\<close>: it maps the template text to an error or
  to a template, which renders the object at an address of the heap to an error or a text.
\<close>

type_synonym template = "heap \<Rightarrow> nat \<Rightarrow> error + string"

type_synonym handlebars = "string \<Rightarrow> error + template"

text \<open>
  What a call leaves behind: the promise, the exception that escaped from a file system
  callback (nothing catches it there), the file system and the heap.
\<close>

record 'a outcome =
  settled :: "'a promise"
  uncaught :: "error option"
  fsAfter :: filesystem
  heapAfter :: heap

text \<open>
  The callback of \<^verbatim>\<open>fs.writeFile\<close> (lines 239--244): \<^verbatim>\<open>reject\<close> does not return,
  \<^verbatim>\<open>resolve\<close> follows and has no effect on a rejected promise.
\<close>

definition writeFileCallback ::
  "hbsResult promise \<Rightarrow> heap \<Rightarrow> filesystem \<Rightarrow> string \<Rightarrow> string \<Rightarrow> error + filesystem \<Rightarrow>
   hbsResult outcome" where
  "writeFileCallback p h fs1 targetBody' target' written =
     (let p1 = (case written of Inl err \<Rightarrow> reject err p | Inr _ \<Rightarrow> p);
          p2 = resolve_with \<lparr>targetBody = targetBody', targetPath = target'\<rparr> p1
      in \<lparr>settled = p2, uncaught = None,
          fsAfter = (case written of Inl _ \<Rightarrow> fs1 | Inr fs2 \<Rightarrow> fs2), heapAfter = h\<rparr>)"

text \<open>
  The callback of \<^verbatim>\<open>fs.readFile\<close> (lines 229--245). After \<^verbatim>\<open>reject(err)\<close> the body
  goes on: \<open>sourceBody\<close> is \<^verbatim>\<open>undefined\<close> then, and \<^verbatim>\<open>sourceBody.toString()\<close> throws.
  An exception of the template engine or of \<^verbatim>\<open>mkdirp.sync\<close> leaves the callback as
  well, with the promise still pending.
\<close>

definition readFileCallback ::
  "buildSettings \<Rightarrow> handlebars \<Rightarrow> heap \<Rightarrow> filesystem \<Rightarrow> string \<Rightarrow> nat \<Rightarrow> error + string \<Rightarrow>
   hbsResult outcome" where
  "readFileCallback settings hbs h fs target' dataRef readResult =
     (let p = (case readResult of Inl err \<Rightarrow> reject err Pending | Inr _ \<Rightarrow> Pending) in
      case readResult of
        Inl _ \<Rightarrow>
          \<lparr>settled = p, uncaught = Some (TypeError ''sourceBody is undefined''),
           fsAfter = fs, heapAfter = h\<rparr>
      | Inr sourceBody \<Rightarrow>
          (case hbs sourceBody of
             Inl e \<Rightarrow> \<lparr>settled = p, uncaught = Some e, fsAfter = fs, heapAfter = h\<rparr>
           | Inr template \<Rightarrow>
               (case template h dataRef of
                  Inl e \<Rightarrow> \<lparr>settled = p, uncaught = Some e, fsAfter = fs, heapAfter = h\<rparr>
                | Inr targetBody' \<Rightarrow>
                    (case mkdirp_sync fs (dirname target') of
                       Inl e \<Rightarrow> \<lparr>settled = p, uncaught = Some e, fsAfter = fs, heapAfter = h\<rparr>
                     | Inr fs1 \<Rightarrow>
                         writeFileCallback p h fs1 targetBody' target'
                           (writeFileSync fs1 target' targetBody' (encoding settings))))))"

text \<open>
  Lines 213--228: both paths are resolved, and \<open>data\<close> becomes a new object holding the
  own properties of the caller's object and \<open>fileName\<close>.
\<close>

definition compileHbsTemplate ::
  "buildSettings \<Rightarrow> handlebars \<Rightarrow> heap \<Rightarrow> filesystem \<Rightarrow> ICompileHbsTemplate \<Rightarrow> hbsResult outcome" where
  "compileHbsTemplate settings hbs h fs params =
     (let source' = resolvePath (srcDir settings) (source params);
          target' = resolvePath (distDir settings) (target params);
          fileParse = parse target';
          (dataRef, h') = allocObject h
             ((ownProperties h (data params))
                (''fileName'' \<mapsto> JString (name fileParse @ ext fileParse)))
      in readFileCallback settings hbs h' fs target' dataRef
           (readFileSync fs (Some source') (encoding settings)))"

text \<open>
  The loop of \<^verbatim>\<open>compileHbsTemplates\<close> (lines 252--256) with its variable \<open>results\<close>.
  \<^verbatim>\<open>await\<close> resumes with the value of a resolved promise, throws the error of a rejected
  one, and never resumes on a promise that stays pending. The outcome keeps \<open>results\<close>
  as the loop leaves it.
\<close>

record loopExit =
  collected :: "hbsResult list"
  finished :: "unit outcome"

fun compileLoop ::
  "buildSettings \<Rightarrow> handlebars \<Rightarrow> heap \<Rightarrow> filesystem \<Rightarrow> nat option \<Rightarrow> (string \<times> string) list \<Rightarrow>
   hbsResult list \<Rightarrow> loopExit" where
  "compileLoop settings hbs h fs data' [] results =
     \<lparr>collected = results,
      finished = \<lparr>settled = Resolved (), uncaught = None, fsAfter = fs, heapAfter = h\<rparr>\<rparr>"
| "compileLoop settings hbs h fs data' ((source', target') # rest) results =
     (let out = compileHbsTemplate settings hbs h fs
                  \<lparr>data = data', source = source', target = target'\<rparr>
      in case settled out of
           Resolved result \<Rightarrow>
             compileLoop settings hbs (heapAfter out) (fsAfter out) data' rest (results @ [result])
         | Rejected e \<Rightarrow>
             \<lparr>collected = results,
              finished = \<lparr>settled = Rejected e, uncaught = uncaught out,
                          fsAfter = fsAfter out, heapAfter = heapAfter out\<rparr>\<rparr>
         | Pending \<Rightarrow>
             \<lparr>collected = results,
              finished = \<lparr>settled = Pending, uncaught = uncaught out,
                          fsAfter = fsAfter out, heapAfter = heapAfter out\<rparr>\<rparr>)"

definition compileHbsTemplates ::
  "buildSettings \<Rightarrow> handlebars \<Rightarrow> heap \<Rightarrow> filesystem \<Rightarrow> ICompileHbsTemplates \<Rightarrow>
   hbsResult list outcome" where
  "compileHbsTemplates settings hbs h fs params =
     (let exit = compileLoop settings hbs h fs (data params) (files params) [];
          out = finished exit
      in \<lparr>settled = (case settled out of
                        Resolved _ \<Rightarrow> Resolved (collected exit)
                      | Rejected e \<Rightarrow> Rejected e
                      | Pending \<Rightarrow> Pending),
          uncaught = uncaught out, fsAfter = fsAfter out, heapAfter = heapAfter out\<rparr>)"

section \<open>Concatenation and the Bootstrap 3 bundle\<close>

record IConcatFilesContent = IDistPath +
  filesArr :: "string list option"

definition bootstrapFiles :: "string list" where
  "bootstrapFiles =
     [''variables'', ''mixins'', ''print'', ''glyphicons'', ''code'', ''grid'', ''tables'',
      ''forms'', ''buttons'', ''component-animations'', ''dropdowns'', ''button-groups'',
      ''input-groups'', ''navs'', ''navbar'', ''breadcrumbs'', ''pagination'', ''pager'',
      ''badges'', ''jumbotron'', ''thumbnails'', ''alerts'', ''progress-bars'', ''media'',
      ''list-group'', ''panels'', ''responsive-embed'', ''wells'', ''close'', ''modals'',
      ''tooltip'', ''popovers'', ''carousel'', ''utilities'', ''responsive-utilities'',
      ''theme'']"

definition bootstrapPaths :: "string \<Rightarrow> string list" where
  "bootstrapPaths bootstrapRoot =
     map (\<lambda>fileName. join [bootstrapRoot, ''/'', fileName @ ''.less'']) bootstrapFiles"

text \<open>The rule appended to the concatenated Less sources (lines 95--99).\<close>

definition rowRule :: string where
  "rowRule = EOL @ ''        .row * {'' @ EOL @ ''          box-sizing: border-box;'' @ EOL @
             ''        }'' @ EOL @ ''      ''"

text \<open>
  The Less compiler is an optional module: \<open>None\<close> when \<^verbatim>\<open>require('less')\<close> fails.
  When present, it maps the source and the \<open>filename\<close> option to an error message or
  to the compiled style sheet.
\<close>

type_synonym lessModule = "string \<Rightarrow> string \<Rightarrow> string + string"

section \<open>Auxiliary notions\<close>

text \<open>Segments of a path: without separator; regular when neither empty, \<open>.\<close> nor \<open>..\<close>.\<close>

definition noSlash :: "string \<Rightarrow> bool" where
  "noSlash s = (CHR ''/'' \<notin> set s)"

definition regular :: "string \<Rightarrow> bool" where
  "regular s = (s \<noteq> [] \<and> s \<noteq> ''.'' \<and> s \<noteq> ''..'' \<and> noSlash s)"

text \<open>
  The kept segments of a normalized path, last one first: regular segments, below them
  (only when the path is relative) a run of \<open>..\<close>.
\<close>

fun nfRev :: "bool \<Rightarrow> string list \<Rightarrow> bool" where
  "nfRev allow [] = True"
| "nfRev allow (s # below) =
     (if s = ''..'' then allow \<and> (\<forall>t\<in>set below. t = ''..'')
      else regular s \<and> nfRev allow below)"

text \<open>
  A normalized path written from its parts: whether it is absolute, its kept segments, and
  whether it ends with a separator. Without segments it is \<open>/\<close>, \<open>./\<close> or \<open>.\<close>.
\<close>

definition renderPath :: "bool \<Rightarrow> string list \<Rightarrow> bool \<Rightarrow> string" where
  "renderPath absolute segs trailing =
     (if segs = [] then (if absolute then ''/'' else if trailing then ''./'' else ''.'')
      else (if absolute then ''/'' else []) @ arrayJoin ''/'' segs @
           (if trailing then ''/'' else []))"

text \<open>Segments that may stand in a path: not empty, without separator.\<close>

definition segsOk :: "string list \<Rightarrow> bool" where
  "segsOk S = (\<forall>s\<in>set S. s \<noteq> [] \<and> noSlash s)"

text \<open>A path whose first segment is \<open>..\<close>: it leaves the directory it is joined to.\<close>

definition startsWithDotDot :: "string \<Rightarrow> bool" where
  "startsWithDotDot c = (c = ''..'' \<or> prefix ''../'' c)"

text \<open>The object of lines 225--228: the own properties of \<open>data\<close>, then \<open>fileName\<close>.\<close>

definition hbsContext :: "buildSettings \<Rightarrow> heap \<Rightarrow> ICompileHbsTemplate \<Rightarrow> object" where
  "hbsContext settings h params =
     (ownProperties h (data params))
       (''fileName'' \<mapsto>
          JString (name (parse (resolvePath (distDir settings) (target params))) @
                   ext (parse (resolvePath (distDir settings) (target params)))))"

section \<open>Values for the examples\<close>

definition defaultSettings :: buildSettings where
  "defaultSettings = Build \<lparr>src = None, dist = None, fileEncoding = None\<rparr>"

definition brokenLess :: lessModule where
  "brokenLess lessSource filename = Inl ''Unrecognised input''"

definition bootstrapInstalled :: filesystem where
  "bootstrapInstalled =
     \<lparr>fileText = (\<lambda>p. if p \<in> set (bootstrapPaths ''/app/node_modules/bootstrap/less'')
                      then Some ''// less'' else None),
      dirSet = {''/app'', ''/app/node_modules/bootstrap/less''},
      locked = {}\<rparr>"

definition sampleFs :: filesystem where
  "sampleFs =
     \<lparr>fileText = [''a.css'' \<mapsto> ''A'', ''b.css'' \<mapsto> ''B'', ''c.css'' \<mapsto> ''C'',
                  ''a.js'' \<mapsto> ''var x;'', ''s.scss'' \<mapsto> ''x{y:z}'',
                  ''src/page.hbs'' \<mapsto> ''Page: ''],
      dirSet = {''.'', ''src''},
      locked = {''/proc''}\<rparr>"

text \<open>
  A heap with the caller's data object at address 0, a template engine whose templates
  render the template text followed by the \<open>fileName\<close> of the data, and template jobs.
\<close>

definition fileNameTemplate :: "string \<Rightarrow> template" where
  "fileNameTemplate sourceBody h ref =
     (case objects h ref of
        None \<Rightarrow> Inl (ExternalError ''no data'')
      | Some obj \<Rightarrow>
          (case obj ''fileName'' of
             Some (JString f) \<Rightarrow> Inr (sourceBody @ f)
           | _ \<Rightarrow> Inl (ExternalError ''no fileName'')))"

definition sampleHandlebars :: handlebars where
  "sampleHandlebars sourceBody =
     (if sourceBody = [] then Inl (ExternalError ''empty template'')
      else Inr (fileNameTemplate sourceBody))"

definition pageJob :: ICompileHbsTemplate where
  "pageJob = \<lparr>data = Some 0, source = ''page.hbs'', target = ''page.html''\<rparr>"

definition indexJob :: ICompileHbsTemplate where
  "indexJob = \<lparr>data = Some 0, source = ''page.hbs'', target = ''sub/index.html''\<rparr>"

definition threeJobs :: ICompileHbsTemplates where
  "threeJobs =
     \<lparr>data = Some 0,
      files = [(''page.hbs'', ''page.html''), (''missing.hbs'', ''x.html''),
               (''page.hbs'', ''later.html'')]\<rparr>"

definition sampleHeap :: heap where
  "sampleHeap =
     \<lparr>objects = [0 \<mapsto> [''title'' \<mapsto> JString ''Home'', ''fileName'' \<mapsto> JString ''caller.html'']],
      nextAddr = 1\<rparr>"

text \<open>
  Stand-ins for the libraries that return the text they are given, so that a result shows
  which text the library received.
\<close>

definition echoUglify :: "string \<Rightarrow> error + MinifyOutput" where
  "echoUglify text = Inr \<lparr>code = text, mapJson = []\<rparr>"

definition echoCleanCSS :: "string \<Rightarrow> error + CleanCSSOutput" where
  "echoCleanCSS text = Inr \<lparr>styles = text\<rparr>"

definition echoSass :: "IBuildCustomCssFromScss \<Rightarrow> error + sassResult" where
  "echoSass options =
     (case data options of
        None \<Rightarrow> Inl (ExternalError ''No input specified'')
      | Some scss \<Rightarrow> Inr \<lparr>css = scss, cssMap = None\<rparr>)"

section \<open>Facts about the model of the path module\<close>

lemma indexOf_range: "indexOf s t = - 1 \<or> 0 \<le> indexOf s t"
  by (induction s) (auto simp: Let_def)

lemma indexOf_zero_iff: "indexOf s t = 0 \<longleftrightarrow> prefix t s"
proof (cases s)
  case Nil
  then show ?thesis by auto
next
  case (Cons c cs)
  have "indexOf cs t = - 1 \<or> 0 \<le> indexOf cs t" by (rule indexOf_range)
  then show ?thesis using Cons by (auto simp: Let_def)
qed

lemma splitSlash_nonempty: "splitSlash p \<noteq> []"
  by (induction p) (auto split: list.splits)

lemma splitSlash_noSlash: "s \<in> set (splitSlash p) \<Longrightarrow> noSlash s"
  by (induction p arbitrary: s) (auto simp: noSlash_def split: list.splits if_splits)

lemma splitSlash_single: "noSlash s \<Longrightarrow> splitSlash s = [s]"
  by (induction s) (auto simp: noSlash_def)

lemma splitSlash_append: "noSlash s \<Longrightarrow> splitSlash (s @ CHR ''/'' # t) = s # splitSlash t"
  by (induction s) (auto simp: noSlash_def)

lemma splitSlash_arrayJoin:
  "xs \<noteq> [] \<Longrightarrow> \<forall>s\<in>set xs. noSlash s \<Longrightarrow> splitSlash (arrayJoin ''/'' xs) = xs"
  by (induction "''/''" xs rule: arrayJoin.induct) (auto simp: splitSlash_single splitSlash_append)

lemma splitSlash_snoc: "splitSlash (t @ ''/'') = splitSlash t @ [[]]"
  by (induction t) (auto split: list.splits simp: splitSlash_nonempty)

lemma splitSlash_last_segment:
  "noSlash seg \<Longrightarrow> splitSlash (a @ CHR ''/'' # seg) = splitSlash a @ [seg]"
  by (induction a) (auto split: list.splits simp: splitSlash_nonempty splitSlash_single)

lemma nfRev_dots: "allow \<Longrightarrow> \<forall>t\<in>set res. t = ''..'' \<Longrightarrow> nfRev allow res"
  by (induction res) auto

lemma nfRev_step: "nfRev allow res \<Longrightarrow> noSlash seg \<Longrightarrow> nfRev allow (normStep allow res seg)"
  by (cases res) (auto simp: normStep_def regular_def nfRev_dots split: if_splits)

lemma nfRev_foldl:
  "nfRev allow res \<Longrightarrow> \<forall>s\<in>set segs. noSlash s \<Longrightarrow>
   nfRev allow (foldl (normStep allow) res segs)"
  by (induction segs arbitrary: res) (auto simp: nfRev_step)

lemma nfRev_suffix: "nfRev allow (a @ b) \<Longrightarrow> nfRev allow b"
  by (induction a) (auto simp: nfRev_dots split: if_splits)

lemma normStep_keep: "nfRev allow (y # acc) \<Longrightarrow> normStep allow acc y = y # acc"
  by (cases acc) (auto simp: normStep_def regular_def split: if_splits)

lemma foldl_normStep_nf:
  "nfRev allow (rev ys @ acc) \<Longrightarrow> foldl (normStep allow) acc ys = rev ys @ acc"
proof (induction ys arbitrary: acc)
  case Nil
  then show ?case by simp
next
  case (Cons y ys)
  from Cons.prems have nf: "nfRev allow (rev ys @ (y # acc))" by simp
  then have "nfRev allow (y # acc)" by (rule nfRev_suffix)
  then have "normStep allow acc y = y # acc" by (rule normStep_keep)
  with Cons.IH [OF nf] show ?case by simp
qed

lemma nfRev_normSegments:
  "\<forall>s\<in>set segs. noSlash s \<Longrightarrow> nfRev allow (rev (normSegments allow segs))"
  by (simp add: normSegments_def nfRev_foldl)

lemma normStep_empty: "normStep allow res [] = res"
  by (simp add: normStep_def)

lemma foldl_normStep_empties: "set B \<subseteq> {[]} \<Longrightarrow> foldl (normStep allow) res B = res"
  by (induction B arbitrary: res) (auto simp: normStep_empty)

lemma normSegments_fix:
  assumes "set A \<subseteq> {[]}" "set B \<subseteq> {[]}" "nfRev allow (rev S)"
  shows "normSegments allow (A @ S @ B) = S"
  using assms by (simp add: normSegments_def foldl_normStep_empties foldl_normStep_nf)

lemma dotdot_ok: "''..'' \<noteq> [] \<and> noSlash ''..''"
  by (simp add: noSlash_def)

lemma nfRev_nonempty_noSlash:
  "nfRev allow res \<Longrightarrow> s \<in> set res \<Longrightarrow> s \<noteq> [] \<and> noSlash s"
proof (induction res)
  case Nil
  then show ?case by simp
next
  case (Cons a res)
  show ?case
  proof (cases "a = ''..''")
    case True
    with Cons.prems have "s = ''..''" by auto
    then show ?thesis using dotdot_ok by simp
  next
    case False
    with Cons.prems have "regular a" "nfRev allow res" by simp_all
    with Cons.IH Cons.prems(2) show ?thesis by (auto simp: regular_def)
  qed
qed

lemma hd_arrayJoin: "xs \<noteq> [] \<Longrightarrow> hd xs \<noteq> [] \<Longrightarrow> hd (arrayJoin sep xs) = hd (hd xs)"
  by (induction sep xs rule: arrayJoin.induct) auto

lemma arrayJoin_ne: "xs \<noteq> [] \<Longrightarrow> last xs \<noteq> [] \<Longrightarrow> arrayJoin sep xs \<noteq> []"
  by (induction sep xs rule: arrayJoin.induct) auto

lemma last_arrayJoin:
  "xs \<noteq> [] \<Longrightarrow> last xs \<noteq> [] \<Longrightarrow> last (arrayJoin sep xs) = last (last xs)"
  by (induction sep xs rule: arrayJoin.induct) (auto simp: arrayJoin_ne)

lemma arrayJoin_snoc:
  "arrayJoin sep (xs @ [s]) = (if xs = [] then s else arrayJoin sep xs @ sep @ s)"
  by (induction sep xs rule: arrayJoin.induct) auto

lemma normalize_special:
  "normalize ''.'' = ''.''" "normalize ''./'' = ''./''" "normalize ''/'' = ''/''"
  by (simp_all add: normalize_def normalizeString_def normSegments_def normStep_def
      isAbsolute_def trailingSeparator_def)

lemma normalize_degenerate:
  "p = [] \<or> normalizeString p (\<not> isAbsolute p) = [] \<Longrightarrow>
   normalize p = ''.'' \<or> normalize p = ''./'' \<or> normalize p = ''/''"
  unfolding normalize_def Let_def by (cases "p = []") auto

lemma normalize_regular:
  "p \<noteq> [] \<Longrightarrow> normalizeString p (\<not> isAbsolute p) \<noteq> [] \<Longrightarrow>
   normalize p = (if isAbsolute p then ''/'' else []) @ normalizeString p (\<not> isAbsolute p) @
          (if trailingSeparator p then ''/'' else [])"
  unfolding normalize_def Let_def by simp

lemma normalize_idem: "normalize (normalize p) = normalize p"
proof (cases "p = [] \<or> normalizeString p (\<not> isAbsolute p) = []")
  case True
  from normalize_degenerate [OF True] show ?thesis
    using normalize_special by presburger
next
  case False
  define allow where "allow = (\<not> isAbsolute p)"
  define S where "S = normSegments allow (splitSlash p)"
  define A where "A = (if isAbsolute p then [[]] else [] :: string list)"
  define B where "B = (if trailingSeparator p then [[]] else [] :: string list)"
  define out where "out = (if isAbsolute p then ''/'' else []) @ arrayJoin ''/'' S @
        (if trailingSeparator p then ''/'' else [])"
  have nf: "nfRev allow (rev S)"
    unfolding S_def by (rule nfRev_normSegments) (simp add: splitSlash_noSlash)
  have elems: "\<And>s. s \<in> set S \<Longrightarrow> s \<noteq> [] \<and> noSlash s"
    using nfRev_nonempty_noSlash [OF nf] by simp
  have pS: "normalizeString p (\<not> isAbsolute p) = arrayJoin ''/'' S"
    by (simp add: normalizeString_def S_def allow_def)
  with False have jS: "arrayJoin ''/'' S \<noteq> []" by simp
  then have Sne: "S \<noteq> []" by auto
  have out: "normalize p = out"
    using False normalize_regular [of p] by (simp add: pS out_def)
  have split_mid: "splitSlash (arrayJoin ''/'' S) = S"
    using Sne elems by (simp add: splitSlash_arrayJoin)
  have split_out: "splitSlash out = A @ S @ B"
  proof -
    have 1: "splitSlash (arrayJoin ''/'' S @ (if trailingSeparator p then ''/'' else [])) = S @ B"
      using split_mid splitSlash_snoc [of "arrayJoin ''/'' S"] by (simp add: B_def)
    show ?thesis unfolding out_def A_def using 1 by simp
  qed
  have "hd S \<in> set S" "last S \<in> set S" using Sne by simp_all
  then have hl: "hd S \<noteq> []" "noSlash (hd S)" "last S \<noteq> []" "noSlash (last S)"
    using elems by blast+
  have "hd (hd S) \<in> set (hd S)" "last (last S) \<in> set (last S)" using hl by simp_all
  then have "hd (hd S) \<noteq> CHR ''/''" "last (last S) \<noteq> CHR ''/''"
    using hl unfolding noSlash_def by metis+
  then have hdS: "hd (arrayJoin ''/'' S) \<noteq> CHR ''/''"
    and lastS: "last (arrayJoin ''/'' S) \<noteq> CHR ''/''"
    using Sne hl by (simp_all add: hd_arrayJoin last_arrayJoin)
  have abs_out: "isAbsolute out = isAbsolute p"
    using jS hdS by (cases "arrayJoin ''/'' S") (simp_all add: out_def isAbsolute_def)
  have tr_out: "trailingSeparator out = trailingSeparator p"
    using jS lastS by (simp add: out_def trailingSeparator_def)
  have out_ne: "out \<noteq> []" using jS by (simp add: out_def)
  have "normSegments allow (splitSlash out) = S"
    unfolding split_out by (rule normSegments_fix) (auto simp: A_def B_def nf)
  then have ns: "normalizeString out (\<not> isAbsolute out) = arrayJoin ''/'' S"
    by (simp add: normalizeString_def abs_out allow_def)
  have "normalize out = (if isAbsolute out then ''/'' else []) @
          normalizeString out (\<not> isAbsolute out) @ (if trailingSeparator out then ''/'' else [])"
    using out_ne jS by (intro normalize_regular) (simp_all add: ns)
  also have "\<dots> = out"
    using ns unfolding abs_out tr_out by (simp only:) (simp only: out_def)
  finally show ?thesis by (simp add: out)
qed

lemma normalize_join: "normalize (join args) = join args"
  by (simp add: join_def Let_def normalize_idem normalize_special)

lemma resolvePath_normal: "normalize (resolvePath r p) = resolvePath r p"
  by (simp add: resolvePath_def Let_def normalize_idem normalize_join)

lemma normalize_ends_with_segment:
  assumes "regular seg"
  shows "suffix seg (normalize (a @ CHR ''/'' # seg))"
proof -
  let ?p = "a @ CHR ''/'' # seg"
  let ?allow = "\<not> isAbsolute ?p"
  from assms have ns: "noSlash seg" and ne: "seg \<noteq> []" by (simp_all add: regular_def)
  have "splitSlash ?p = splitSlash a @ [seg]" using ns by (rule splitSlash_last_segment)
  then have "normSegments ?allow (splitSlash ?p) =
      rev (normStep ?allow (foldl (normStep ?allow) [] (splitSlash a)) seg)"
    by (simp add: normSegments_def)
  also have "normStep ?allow (foldl (normStep ?allow) [] (splitSlash a)) seg =
      seg # foldl (normStep ?allow) [] (splitSlash a)"
    using assms by (simp add: normStep_def regular_def)
  finally have S: "normSegments ?allow (splitSlash ?p) =
      rev (foldl (normStep ?allow) [] (splitSlash a)) @ [seg]" by simp
  then have sfx: "suffix seg (normalizeString ?p ?allow)"
    by (simp add: normalizeString_def arrayJoin_snoc suffix_def)
  with ne have nonempty: "normalizeString ?p ?allow \<noteq> []" by (auto simp: suffix_def)
  have "last ?p = last seg" using ne by simp
  moreover have "last seg \<in> set seg" using ne by simp
  ultimately have "\<not> trailingSeparator ?p" using ns by (auto simp: trailingSeparator_def noSlash_def)
  then have "normalize ?p = (if isAbsolute ?p then ''/'' else []) @ normalizeString ?p ?allow"
    using nonempty normalize_regular [of ?p] by simp
  with sfx show ?thesis by (auto simp: suffix_def)
qed

lemma bootstrapPaths_suffix:
  assumes "q \<in> set (bootstrapPaths bootstrapRoot)"
  shows "suffix ''.less'' q"
proof -
  from assms obtain fileName where
    eq: "q = join [bootstrapRoot, ''/'', fileName @ ''.less'']"
    and f: "fileName \<in> set bootstrapFiles"
    by (auto simp: bootstrapPaths_def)
  from f have reg: "regular (fileName @ ''.less'')"
    by (auto simp: bootstrapFiles_def regular_def noSlash_def)
  have "\<exists>a. arrayJoin ''/'' (filter (\<lambda>arg. arg \<noteq> []) [bootstrapRoot, ''/'', fileName @ ''.less''])
      = a @ CHR ''/'' # (fileName @ ''.less'')"
    by (cases "bootstrapRoot = []") auto
  then obtain a where
    j: "arrayJoin ''/'' (filter (\<lambda>arg. arg \<noteq> []) [bootstrapRoot, ''/'', fileName @ ''.less''])
      = a @ CHR ''/'' # (fileName @ ''.less'')" ..
  have "q = normalize (a @ CHR ''/'' # (fileName @ ''.less''))"
    unfolding eq join_def Let_def j by simp
  then have "suffix (fileName @ ''.less'') q"
    using normalize_ends_with_segment [OF reg, of a] by simp
  then show ?thesis
    by (metis suffix_appendD)
qed

lemma bootstrapPaths_no_token: "''bootstrap3'' \<notin> set (bootstrapPaths bootstrapRoot)"
proof
  assume "''bootstrap3'' \<in> set (bootstrapPaths bootstrapRoot)"
  then have "suffix ''.less'' ''bootstrap3''" by (rule bootstrapPaths_suffix)
  then show False by (simp add: suffix_def)
qed

section \<open>Facts about joining a path to a root\<close>

lemma arrayJoin_eq_Nil: "\<forall>s\<in>set xs. s \<noteq> [] \<Longrightarrow> arrayJoin sep xs = [] \<longleftrightarrow> xs = []"
  by (induction sep xs rule: arrayJoin.induct) auto

lemma nfRev_segsOk: "nfRev allow (rev S) \<Longrightarrow> segsOk S"
  using nfRev_nonempty_noSlash [of allow "rev S"] by (simp add: segsOk_def)

lemma regular_segsOk: "\<forall>s\<in>set C. regular s \<Longrightarrow> segsOk C"
  by (simp add: segsOk_def regular_def)

lemma segsOk_join_Nil: "segsOk S \<Longrightarrow> arrayJoin ''/'' S = [] \<longleftrightarrow> S = []"
  by (rule arrayJoin_eq_Nil) (simp add: segsOk_def)

lemma normalize_render:
  "normalize p =
     renderPath (isAbsolute p) (normSegments (\<not> isAbsolute p) (splitSlash p)) (trailingSeparator p)"
proof (cases "p = []")
  case True
  then show ?thesis
    by (simp add: normalize_def renderPath_def isAbsolute_def normSegments_def normStep_def
        trailingSeparator_def)
next
  case False
  let ?S = "normSegments (\<not> isAbsolute p) (splitSlash p)"
  have "nfRev (\<not> isAbsolute p) (rev ?S)"
    by (rule nfRev_normSegments) (simp add: splitSlash_noSlash)
  then have "segsOk ?S" by (rule nfRev_segsOk)
  then have "arrayJoin ''/'' ?S = [] \<longleftrightarrow> ?S = []" by (rule segsOk_join_Nil)
  with False show ?thesis
    by (simp add: normalize_def renderPath_def normalizeString_def Let_def)
qed

lemma render_nonempty: "segsOk S \<Longrightarrow> renderPath a S t \<noteq> []"
  by (auto simp: renderPath_def segsOk_join_Nil)

lemma hd_join_noSlash:
  assumes "segsOk S" "S \<noteq> []"
  shows "hd (arrayJoin ''/'' S) \<noteq> CHR ''/''"
proof -
  from assms have "hd S \<noteq> []" "noSlash (hd S)" by (simp_all add: segsOk_def)
  moreover from this have "hd (hd S) \<in> set (hd S)" by simp
  ultimately have "hd (hd S) \<noteq> CHR ''/''" unfolding noSlash_def by metis
  with assms(2) \<open>hd S \<noteq> []\<close> show ?thesis by (simp add: hd_arrayJoin)
qed

lemma last_join_noSlash:
  assumes "segsOk S" "S \<noteq> []"
  shows "last (arrayJoin ''/'' S) \<noteq> CHR ''/''"
proof -
  from assms have "last S \<noteq> []" "noSlash (last S)" by (simp_all add: segsOk_def)
  moreover from this have "last (last S) \<in> set (last S)" by simp
  ultimately have "last (last S) \<noteq> CHR ''/''" unfolding noSlash_def by metis
  with assms(2) \<open>last S \<noteq> []\<close> show ?thesis by (simp add: last_arrayJoin)
qed

lemma isAbsolute_render: "segsOk S \<Longrightarrow> isAbsolute (renderPath a S t) = a"
proof (cases "S = []")
  case True
  then show ?thesis by (simp add: renderPath_def isAbsolute_def)
next
  case False
  assume ok: "segsOk S"
  with False have ne: "arrayJoin ''/'' S \<noteq> []" by (simp add: segsOk_join_Nil)
  from hd_join_noSlash [OF ok False] ne False show ?thesis
    by (cases "arrayJoin ''/'' S") (simp_all add: renderPath_def isAbsolute_def)
qed

lemma trailingSeparator_render:
  "segsOk S \<Longrightarrow> trailingSeparator (renderPath a S t) = (t \<or> (a \<and> S = []))"
proof (cases "S = []")
  case True
  then show ?thesis by (simp add: renderPath_def trailingSeparator_def)
next
  case False
  assume ok: "segsOk S"
  with False have ne: "arrayJoin ''/'' S \<noteq> []" by (simp add: segsOk_join_Nil)
  from last_join_noSlash [OF ok False] ne False show ?thesis
    by (simp add: renderPath_def trailingSeparator_def)
qed


lemma splitSlash_app: "splitSlash (x @ CHR ''/'' # y) = splitSlash x @ splitSlash y"
proof (induction x)
  case Nil
  then show ?case by simp
next
  case (Cons c x)
  obtain s ss where sp: "splitSlash x = s # ss"
    using splitSlash_nonempty [of x] by (cases "splitSlash x") auto
  with Cons show ?case by simp
qed

lemma splitSlash_render:
  assumes "segsOk S"
  shows "splitSlash (renderPath a S t) =
     (if S = [] then (if a then [[], []] else if t then [''.'', []] else [''.''])
      else (if a then [[]] else []) @ S @ (if t then [[]] else []))"
proof (cases "S = []")
  case True
  then show ?thesis by (simp add: renderPath_def)
next
  case False
  from assms have ns: "\<forall>s\<in>set S. noSlash s" by (simp add: segsOk_def)
  have mid: "splitSlash (arrayJoin ''/'' S) = S"
    using False ns by (rule splitSlash_arrayJoin)
  have tail: "splitSlash (arrayJoin ''/'' S @ (if t then ''/'' else [])) = S @ (if t then [[]] else [])"
    using mid splitSlash_snoc [of "arrayJoin ''/'' S"] by simp
  show ?thesis
    using False tail by (simp add: renderPath_def)
qed

lemma normStep_dot: "normStep allow res ''.'' = res"
  by (simp add: normStep_def)

lemma foldl_normStep_render:
  assumes "segsOk S"
  shows "foldl (normStep allow) acc (splitSlash (renderPath a S t)) = foldl (normStep allow) acc S"
  unfolding splitSlash_render [OF assms]
  by (simp add: normStep_empty normStep_dot)

lemma foldl_normStep_regular:
  "\<forall>s\<in>set C. regular s \<Longrightarrow> foldl (normStep allow) acc C = rev C @ acc"
proof (induction C arbitrary: acc)
  case Nil
  then show ?case by simp
next
  case (Cons c C)
  then have "normStep allow acc c = c # acc" by (simp add: normStep_def regular_def)
  with Cons show ?case by simp
qed

lemma join_two: "r \<noteq> [] \<Longrightarrow> c \<noteq> [] \<Longrightarrow> join [r, c] = normalize (r @ CHR ''/'' # c)"
  by (simp add: join_def)

lemma normalize_under:
  assumes R: "nfRev (\<not> a) (rev R)" and C: "\<forall>s\<in>set C. regular s"
  shows "normalize (renderPath a R tr @ CHR ''/'' # renderPath b C tc) =
     renderPath a (R @ C) (trailingSeparator (renderPath b C tc))"
proof -
  let ?r = "renderPath a R tr" and ?c = "renderPath b C tc"
  let ?J = "?r @ CHR ''/'' # ?c"
  have okR: "segsOk R" using R by (rule nfRev_segsOk)
  have okC: "segsOk C" using C by (rule regular_segsOk)
  have rne: "?r \<noteq> []" using okR by (rule render_nonempty)
  have cne: "?c \<noteq> []" using okC by (rule render_nonempty)
  have abs: "isAbsolute ?J = a"
    using rne isAbsolute_render [OF okR, of a tr] by (cases ?r) (simp_all add: isAbsolute_def)
  have tr: "trailingSeparator ?J = trailingSeparator ?c"
    using cne by (simp add: trailingSeparator_def)
  have "foldl (normStep (\<not> a)) [] (splitSlash ?J) =
      foldl (normStep (\<not> a)) (foldl (normStep (\<not> a)) [] R) C"
    by (simp add: splitSlash_app foldl_normStep_render [OF okR] foldl_normStep_render [OF okC])
  also have "foldl (normStep (\<not> a)) [] R = rev R"
    using foldl_normStep_nf [of "\<not> a" R "[]"] R by simp
  also have "foldl (normStep (\<not> a)) (rev R) C = rev C @ rev R"
    using C by (rule foldl_normStep_regular)
  finally have "normSegments (\<not> a) (splitSlash ?J) = R @ C"
    by (simp add: normSegments_def)
  then show ?thesis
    unfolding normalize_render [of ?J] abs tr by simp
qed


lemma nfRev_dotdot_last:
  "nfRev allow res \<Longrightarrow> ''..'' \<in> set res \<Longrightarrow> allow \<and> last res = ''..''"
proof (induction res)
  case Nil
  then show ?case by simp
next
  case (Cons s below)
  show ?case
  proof (cases "s = ''..''")
    case True
    with Cons.prems(1) have "allow" "\<forall>t\<in>set below. t = ''..''" by simp_all
    with True show ?thesis by (cases below) auto
  next
    case False
    with Cons.prems have nf: "nfRev allow below" and mem: "''..'' \<in> set below" by auto
    from Cons.IH [OF nf mem] mem show ?thesis by (cases below) auto
  qed
qed

lemma nfRev_elements: "nfRev allow res \<Longrightarrow> s \<in> set res \<Longrightarrow> s = ''..'' \<or> regular s"
proof (induction res)
  case Nil
  then show ?case by simp
next
  case (Cons x below)
  show ?case
  proof (cases "x = ''..''")
    case True
    with Cons.prems show ?thesis by auto
  next
    case False
    with Cons.prems have "regular x" "nfRev allow below" by simp_all
    with Cons.IH Cons.prems(2) show ?thesis by auto
  qed
qed

lemma render_dotdot_first:
  "startsWithDotDot (renderPath False (''..'' # rest) tc)"
  by (cases rest) (simp_all add: renderPath_def startsWithDotDot_def)

lemma no_climb_regular:
  assumes nf: "nfRev (\<not> b) (rev C)" and nc: "\<not> startsWithDotDot (renderPath b C tc)"
  shows "\<forall>s\<in>set C. regular s"
proof -
  have "''..'' \<notin> set C"
  proof
    assume mem: "''..'' \<in> set C"
    then have "''..'' \<in> set (rev C)" by simp
    from nfRev_dotdot_last [OF nf this] have b: "\<not> b" and l: "last (rev C) = ''..''" by simp_all
    from mem have "C \<noteq> []" by auto
    with l have "hd C = ''..''" by (simp add: last_rev)
    with \<open>C \<noteq> []\<close> obtain rest where "C = ''..'' # rest" by (cases C) auto
    with b nc render_dotdot_first [of rest tc] show False by simp
  qed
  moreover have "s = ''..'' \<or> regular s" if "s \<in> set C" for s
    using nfRev_elements [OF nf, of s] that by simp
  ultimately show ?thesis by auto
qed

lemma arrayJoin_append:
  "xs \<noteq> [] \<Longrightarrow> ys \<noteq> [] \<Longrightarrow> arrayJoin sep (xs @ ys) = arrayJoin sep xs @ sep @ arrayJoin sep ys"
proof (induction sep xs rule: arrayJoin.induct)
  case (1 sep)
  then show ?case by simp
next
  case (2 sep x)
  then show ?case by (cases ys) simp_all
next
  case (3 sep x y zs)
  then show ?case by simp
qed

lemma render_prefix:
  assumes "R \<noteq> [] \<or> a" and "C = [] \<and> R \<noteq> [] \<and> tr \<longrightarrow> t'"
  shows "prefix (renderPath a R tr) (renderPath a (R @ C) t')"
proof (cases "R = []")
  case True
  with assms(1) show ?thesis by (simp add: renderPath_def)
next
  case False
  show ?thesis
  proof (cases "C = []")
    case True
    with False assms(2) show ?thesis by (auto simp: renderPath_def)
  next
    case Cne: False
    have "arrayJoin ''/'' (R @ C) = arrayJoin ''/'' R @ ''/'' @ arrayJoin ''/'' C"
      using False Cne by (rule arrayJoin_append)
    with False show ?thesis by (auto simp: renderPath_def)
  qed
qed

lemma arrayJoin_not_dot:
  assumes nf: "nfRev allow (rev R)"
  shows "arrayJoin ''/'' R \<noteq> ''.''"
proof (cases R)
  case Nil
  then show ?thesis by simp
next
  case (Cons x rest)
  from nfRev_elements [OF nf, of x] Cons have x: "x = ''..'' \<or> regular x" by simp
  show ?thesis
  proof (cases rest)
    case Nil
    with Cons x show ?thesis by (auto simp: regular_def)
  next
    case (Cons y zs)
    from x have "x \<noteq> []" by (auto simp: regular_def)
    with Cons \<open>R = x # rest\<close> show ?thesis by (cases x) simp_all
  qed
qed

lemma render_not_root:
  assumes nf: "nfRev allow (rev R)" and ne: "R \<noteq> []"
  shows "renderPath a R tr \<noteq> ''/'' \<and> renderPath a R tr \<noteq> ''./''"
proof -
  have ok: "segsOk R" using nf by (rule nfRev_segsOk)
  have j: "arrayJoin ''/'' R \<noteq> []" using ok ne by (simp add: segsOk_join_Nil)
  have h: "hd (arrayJoin ''/'' R) \<noteq> CHR ''/''" using ok ne by (rule hd_join_noSlash)
  have l: "last (arrayJoin ''/'' R) \<noteq> CHR ''/''" using ok ne by (rule last_join_noSlash)
  have d: "arrayJoin ''/'' R \<noteq> ''.''" using nf by (rule arrayJoin_not_dot)
  have 1: "renderPath a R tr \<noteq> ''/''"
  proof
    assume eq: "renderPath a R tr = ''/''"
    show False
    proof (cases a)
      case True
      with eq ne j show False by (simp add: renderPath_def)
    next
      case False
      with eq ne have "arrayJoin ''/'' R @ (if tr then ''/'' else []) = ''/''"
        by (simp add: renderPath_def)
      with j h show False by (cases "arrayJoin ''/'' R") (auto split: if_splits)
    qed
  qed
  have 2: "renderPath a R tr \<noteq> ''./''"
  proof
    assume eq: "renderPath a R tr = ''./''"
    show False
    proof (cases a)
      case True
      with eq ne show False by (simp add: renderPath_def)
    next
      case False
      with eq ne have e: "arrayJoin ''/'' R @ (if tr then ''/'' else []) = ''./''"
        by (simp add: renderPath_def)
      show False
      proof (cases tr)
        case True
        with e have "arrayJoin ''/'' R @ ''/'' = ''.'' @ ''/''" by simp
        then have "arrayJoin ''/'' R = ''.''" by (simp only: append_same_eq)
        with d show False by simp
      next
        case False
        with e have "arrayJoin ''/'' R = ''./''" by simp
        with l show False by simp
      qed
    qed
  qed
  from 1 2 show ?thesis ..
qed


lemma normalize_nf:
  "nfRev (\<not> isAbsolute p) (rev (normSegments (\<not> isAbsolute p) (splitSlash p)))"
  by (rule nfRev_normSegments) (simp add: splitSlash_noSlash)

section \<open>The methods \<open>concatFilesContent\<close> and \<open>buildBootstrap3\<close>\<close>

text \<open>
  \<^verbatim>\<open>concatFilesContent\<close> (lines 144--163) calls \<^verbatim>\<open>buildBootstrap3\<close> for the entry
  \<open>bootstrap3\<close>, and \<^verbatim>\<open>buildBootstrap3\<close> (lines 34--125) calls \<^verbatim>\<open>concatFilesContent\<close>
  on the Less sources of Bootstrap; \<open>concatLoop\<close> is the loop of lines 147--155. The
  recursion ends because no path of the Less sources is the entry \<open>bootstrap3\<close>.
  \<open>lessModule\<close> is the Less compiler. When it reports an error, the promise is rejected
  with a string; messages written to the console are not modelled.
\<close>

function
  concatLoop :: "buildSettings \<Rightarrow> string \<Rightarrow> lessModule option \<Rightarrow> filesystem \<Rightarrow> string list \<Rightarrow>
      string list \<Rightarrow> (error + string list) \<times> filesystem"
  and concatFilesContent :: "buildSettings \<Rightarrow> string \<Rightarrow> lessModule option \<Rightarrow> filesystem \<Rightarrow>
      IConcatFilesContent \<Rightarrow> (error + string) \<times> filesystem"
  and buildBootstrap3 :: "buildSettings \<Rightarrow> string \<Rightarrow> lessModule option \<Rightarrow> filesystem \<Rightarrow>
      (error + string) \<times> filesystem"
where
  "concatLoop settings cwd lessMod fs [] concatedContent = (Inr concatedContent, fs)"
| "concatLoop settings cwd lessMod fs (filePath # rest) concatedContent =
     (case (if filePath = ''bootstrap3'' then buildBootstrap3 settings cwd lessMod fs
            else (readFileSync fs (Some filePath) (encoding settings), fs)) of
        (Inl e, fs') \<Rightarrow> (Inl e, fs')
      | (Inr content', fs') \<Rightarrow>
          concatLoop settings cwd lessMod fs' rest (concatedContent @ [content']))"
| "concatFilesContent settings cwd lessMod fs params =
     (case concatLoop settings cwd lessMod fs
             (case filesArr params of None \<Rightarrow> [] | Some xs \<Rightarrow> xs) [] of
        (Inl e, fs') \<Rightarrow> (Inl e, fs')
      | (Inr concatedContent, fs') \<Rightarrow>
          (case writeIfDist settings fs' (distPath params) (arrayJoin EOL concatedContent) of
             (Some e, fs'') \<Rightarrow> (Inl e, fs'')
           | (None, fs'') \<Rightarrow> (Inr (arrayJoin EOL concatedContent), fs'')))"
| "buildBootstrap3 settings cwd lessMod fs =
     (let bootstrapRoot = join [cwd, ''/node_modules/bootstrap/less''] in
      if existsSync fs bootstrapRoot then
        (case concatFilesContent settings cwd lessMod fs
                \<lparr>distPath = None, filesArr = Some (bootstrapPaths bootstrapRoot)\<rparr> of
           (Inl e, fs') \<Rightarrow> (Inl e, fs')
         | (Inr content', fs') \<Rightarrow>
             (case lessMod of
                None \<Rightarrow> (Inr [], fs')
              | Some render \<Rightarrow>
                  (case render (content' @ rowRule)
                          (path_resolve cwd (join [bootstrapRoot, ''/_.less''])) of
                     Inl message \<Rightarrow>
                       (Inl (LessError (''Less compilation error:'' @ message)), fs')
                   | Inr compiled \<Rightarrow> (Inr compiled, fs'))))
      else (Inr [], fs))"
  by pat_completeness auto
termination
  apply (relation "measures
     [\<lambda>x. case x of
            Inl (_, _, _, _, entries, _) \<Rightarrow> (if ''bootstrap3'' \<in> set entries then 3 else 0)
          | Inr (Inl (_, _, _, _, params)) \<Rightarrow>
              (if ''bootstrap3'' \<in> set (case filesArr params of None \<Rightarrow> [] | Some xs \<Rightarrow> xs)
               then 4 else 1)
          | Inr (Inr _) \<Rightarrow> 2,
      \<lambda>x. case x of Inl (_, _, _, _, entries, _) \<Rightarrow> length entries | _ \<Rightarrow> 0]")
  apply (auto simp: bootstrapPaths_no_token)
  done

text \<open>The content of one entry, as lines 148--153 compute it.\<close>

definition entryContent ::
  "buildSettings \<Rightarrow> string \<Rightarrow> lessModule option \<Rightarrow> filesystem \<Rightarrow> string \<Rightarrow> error + string" where
  "entryContent settings cwd lessMod fs filePath =
     (if filePath = ''bootstrap3'' then fst (buildBootstrap3 settings cwd lessMod fs)
      else readFileSync fs (Some filePath) (encoding settings))"

section \<open>Properties of path resolution\<close>

lemmas path_eval = resolvePath_def join_def normalize_def normalizeString_def normSegments_def
  normStep_def isAbsolute_def trailingSeparator_def Let_def

text \<open>
  Claim C1, as amended. Resolving twice gives the same path as resolving once, for every
  root, for every path whose normalized form already starts with the normalized root, and
  for every path whose normalized form does not begin with a segment \<open>..\<close>; one case
  apart: the path that normalizes to \<open>.\<close> (the empty path, for one) under a root that
  keeps a trailing separator (and is neither \<open>/\<close> nor \<open>./\<close>). For these paths the
  resolved path starts with the normalized root, unless the root is the current directory
  (\<open>.\<close> or \<open>./\<close>), which is not written in front of a path.
\<close>

theorem resolvePath_idempotent_inputs:
  assumes "prefix (normalize rootDir) (normalize p) \<or>
           (\<not> startsWithDotDot (normalize p) \<and>
            (normalize p = ''.'' \<longrightarrow>
               \<not> trailingSeparator (normalize rootDir) \<or>
               normalize rootDir = ''/'' \<or> normalize rootDir = ''./''))"
  shows "resolvePath rootDir (resolvePath rootDir p) = resolvePath rootDir p \<and>
         (normalize rootDir \<noteq> ''.'' \<and> normalize rootDir \<noteq> ''./'' \<longrightarrow>
            prefix (normalize rootDir) (resolvePath rootDir p))"
proof (cases "prefix (normalize rootDir) (normalize p)")
  case True
  then have "resolvePath rootDir p = normalize p"
    by (simp add: resolvePath_def Let_def indexOf_zero_iff)
  with True show ?thesis
    by (simp add: resolvePath_def Let_def indexOf_zero_iff normalize_idem)
next
  case False
  define a where "a = isAbsolute rootDir"
  define R where "R = normSegments (\<not> a) (splitSlash rootDir)"
  define tr where "tr = trailingSeparator rootDir"
  define b where "b = isAbsolute p"
  define C where "C = normSegments (\<not> b) (splitSlash p)"
  define tc where "tc = trailingSeparator p"
  define t' where "t' = trailingSeparator (renderPath b C tc)"
  define j where "j = renderPath a (R @ C) t'"
  have r: "normalize rootDir = renderPath a R tr"
    unfolding a_def R_def tr_def by (rule normalize_render)
  have c: "normalize p = renderPath b C tc"
    unfolding b_def C_def tc_def by (rule normalize_render)
  have nfR: "nfRev (\<not> a) (rev R)" unfolding a_def R_def by (rule normalize_nf)
  have nfC: "nfRev (\<not> b) (rev C)" unfolding b_def C_def by (rule normalize_nf)
  have okR: "segsOk R" using nfR by (rule nfRev_segsOk)
  have okC: "segsOk C" using nfC by (rule nfRev_segsOk)
  from assms False have nc: "\<not> startsWithDotDot (renderPath b C tc)"
    and deg: "renderPath b C tc = ''.'' \<longrightarrow>
       \<not> trailingSeparator (renderPath a R tr) \<or> renderPath a R tr = ''/'' \<or> renderPath a R tr = ''./''"
    by (simp_all add: r c)
  have Creg: "\<forall>s\<in>set C. regular s" using nfC nc by (rule no_climb_regular)
  have rne: "renderPath a R tr \<noteq> []" using okR by (rule render_nonempty)
  have cne: "renderPath b C tc \<noteq> []" using okC by (rule render_nonempty)
  have joined: "join [renderPath a R tr, renderPath b C tc] = j"
    unfolding j_def t'_def join_two [OF rne cne] using nfR Creg by (rule normalize_under)
  have res: "resolvePath rootDir p = j"
    using False by (simp add: resolvePath_def Let_def indexOf_zero_iff r c joined)
  have jn: "normalize j = j"
    using resolvePath_normal [of rootDir p] by (simp add: res)
  have under: "prefix (renderPath a R tr) j" if "R \<noteq> [] \<or> a"
    unfolding j_def using that
  proof (rule render_prefix)
    show "C = [] \<and> R \<noteq> [] \<and> tr \<longrightarrow> t'"
    proof (intro impI, elim conjE)
      assume C: "C = []" and Rne: "R \<noteq> []" and trT: "tr"
      show "t'"
      proof (rule ccontr)
        assume "\<not> t'"
        then have "\<not> tc" "\<not> b"
          using trailingSeparator_render [OF okC, of b tc] C by (simp_all add: t'_def)
        with C have "renderPath b C tc = ''.''" by (simp add: renderPath_def)
        with deg have "\<not> trailingSeparator (renderPath a R tr) \<or> renderPath a R tr = ''/'' \<or>
            renderPath a R tr = ''./''" by simp
        moreover have "trailingSeparator (renderPath a R tr)"
          using trailingSeparator_render [OF okR, of a tr] trT by simp
        moreover have "renderPath a R tr \<noteq> ''/'' \<and> renderPath a R tr \<noteq> ''./''"
          using nfR Rne by (rule render_not_root)
        ultimately show False by simp
      qed
    qed
  qed
  have again: "prefix (renderPath a R tr) j \<or> join [renderPath a R tr, j] = j"
  proof (cases "R \<noteq> [] \<or> a")
    case True
    then show ?thesis using under by simp
  next
    case False
    then have R: "R = []" and a: "\<not> a" by simp_all
    have jne: "j \<noteq> []" unfolding j_def R using okC by (simp add: render_nonempty)
    have "normalize (renderPath a R tr @ CHR ''/'' # renderPath a C t') =
        renderPath a (R @ C) (trailingSeparator (renderPath a C t'))"
      using nfR Creg by (rule normalize_under)
    moreover have "trailingSeparator (renderPath a C t') = t'"
      using trailingSeparator_render [OF okC, of a t'] a by simp
    ultimately have "join [renderPath a R tr, j] = j"
      using join_two [OF rne jne] by (simp add: j_def R)
    then show ?thesis ..
  qed
  have idem: "resolvePath rootDir j = j"
    using again by (auto simp: resolvePath_def Let_def indexOf_zero_iff jn r)
  have "prefix (renderPath a R tr) j"
    if "renderPath a R tr \<noteq> ''.''" "renderPath a R tr \<noteq> ''./''"
  proof (rule under, rule ccontr)
    assume "\<not> (R \<noteq> [] \<or> a)"
    then have "renderPath a R tr = ''.'' \<or> renderPath a R tr = ''./''" by (simp add: renderPath_def)
    with that show False by simp
  qed
  with idem show ?thesis by (simp add: res r)
qed

text \<open>
  The theorem at the default root \<open>./src\<close> with the path \<open>tpl/a.hbs\<close>, at the root
  \<open>.\<close> with the path \<open>a/b.html\<close>, and at the root \<open>src\<close> with the path
  \<open>src-other/x\<close>, which starts with the root as a string.
\<close>

theorem resolvePath_idempotent_inputs_witness:
  "resolvePath ''./src'' ''tpl/a.hbs'' = ''src/tpl/a.hbs'' \<and>
   resolvePath ''./src'' (resolvePath ''./src'' ''tpl/a.hbs'') = resolvePath ''./src'' ''tpl/a.hbs'' \<and>
   prefix (normalize ''./src'') (resolvePath ''./src'' ''tpl/a.hbs'') \<and>
   resolvePath ''.'' ''a/b.html'' = ''a/b.html'' \<and>
   resolvePath ''.'' (resolvePath ''.'' ''a/b.html'') = resolvePath ''.'' ''a/b.html'' \<and>
   resolvePath ''src'' (resolvePath ''src'' ''src-other/x'') = resolvePath ''src'' ''src-other/x''"
proof -
  have n: "normalize ''./src'' = ''src''" "normalize ''tpl/a.hbs'' = ''tpl/a.hbs''"
    "normalize ''.'' = ''.''" "normalize ''a/b.html'' = ''a/b.html''"
    "normalize ''src'' = ''src''" "normalize ''src-other/x'' = ''src-other/x''"
    by (simp_all add: path_eval)
  have j: "join [''src'', ''tpl/a.hbs''] = ''src/tpl/a.hbs''"
    "join [''.'', ''a/b.html''] = ''a/b.html''"
    by (simp_all add: path_eval)
  have 1: "resolvePath ''./src'' ''tpl/a.hbs'' = ''src/tpl/a.hbs''"
    by (simp add: resolvePath_def Let_def n j)
  have 2: "resolvePath ''.'' ''a/b.html'' = ''a/b.html''"
    by (simp add: resolvePath_def Let_def n j)
  have a: "resolvePath ''./src'' (resolvePath ''./src'' ''tpl/a.hbs'') =
        resolvePath ''./src'' ''tpl/a.hbs'' \<and>
      prefix (normalize ''./src'') (resolvePath ''./src'' ''tpl/a.hbs'')"
    using resolvePath_idempotent_inputs [of "''./src''" "''tpl/a.hbs''"]
    by (simp add: n startsWithDotDot_def)
  have b: "resolvePath ''.'' (resolvePath ''.'' ''a/b.html'') = resolvePath ''.'' ''a/b.html''"
    using resolvePath_idempotent_inputs [of "''.''" "''a/b.html''"]
    by (simp add: n startsWithDotDot_def)
  have c: "resolvePath ''src'' (resolvePath ''src'' ''src-other/x'') =
      resolvePath ''src'' ''src-other/x''"
    using resolvePath_idempotent_inputs [of "''src''" "''src-other/x''"]
    by (simp add: n)
  from 1 2 a b c show ?thesis by simp
qed

text \<open>
  Claim C1 as stated fails, in the two cases the amended claim leaves out. With the
  default root \<open>./src\<close>, the path \<open>../x\<close> is resolved to \<open>x\<close> (the join leaves the
  root), and \<open>x\<close> is resolved to \<open>src/x\<close>. With the root \<open>src/\<close>, the empty path is
  resolved to \<open>src\<close>, which does not start with \<open>src/\<close>, and \<open>src\<close> is resolved to
  \<open>src/src\<close>.
\<close>

theorem resolvePath_not_idempotent:
  "resolvePath ''./src'' ''../x'' = ''x'' \<and>
   resolvePath ''./src'' (resolvePath ''./src'' ''../x'') = ''src/x'' \<and>
   resolvePath ''./src'' (resolvePath ''./src'' ''../x'') \<noteq> resolvePath ''./src'' ''../x'' \<and>
   resolvePath ''src/'' [] = ''src'' \<and>
   resolvePath ''src/'' (resolvePath ''src/'' []) = ''src/src'' \<and>
   resolvePath ''src/'' (resolvePath ''src/'' []) \<noteq> resolvePath ''src/'' []"
proof -
  have n: "normalize ''./src'' = ''src''" "normalize ''../x'' = ''../x''" "normalize ''x'' = ''x''"
    "normalize ''src/'' = ''src/''" "normalize [] = ''.''" "normalize ''src'' = ''src''"
    by (simp_all add: path_eval)
  have j: "join [''src'', ''../x''] = ''x''" "join [''src'', ''x''] = ''src/x''"
    "join [''src/'', ''.''] = ''src''" "join [''src/'', ''src''] = ''src/src''"
    by (simp_all add: path_eval)
  have 1: "resolvePath ''./src'' ''../x'' = ''x''"
    by (simp add: resolvePath_def Let_def n j)
  have 2: "resolvePath ''./src'' ''x'' = ''src/x''"
    by (simp add: resolvePath_def Let_def n j)
  have 3: "resolvePath ''src/'' [] = ''src''"
    by (simp add: resolvePath_def Let_def n j)
  have 4: "resolvePath ''src/'' ''src'' = ''src/src''"
    by (simp add: resolvePath_def Let_def n j)
  show ?thesis unfolding 1 2 3 4 by simp
qed

text \<open>
  Claim C2. The test is a prefix test on strings: whenever the normalized candidate starts
  with the normalized root, the result is the normalized candidate, and nothing is joined.
\<close>

theorem resolvePath_prefix_keeps_candidate:
  assumes "prefix (normalize rootDir) (normalize candidate)"
  shows "resolvePath rootDir candidate = normalize candidate"
  using assms by (simp add: resolvePath_def Let_def indexOf_zero_iff)

text \<open>
  The sibling directory of the claim: root \<open>src\<close>, candidate \<open>src-other/x\<close>. The
  candidate comes back as it is, not as \<open>src/src-other/x\<close>.
\<close>

theorem resolvePath_prefix_keeps_candidate_witness:
  "prefix (normalize ''src'') (normalize ''src-other/x'') \<and>
   resolvePath ''src'' ''src-other/x'' = ''src-other/x'' \<and>
   join [normalize ''src'', normalize ''src-other/x''] = ''src/src-other/x''"
proof -
  have n: "normalize ''src'' = ''src''" "normalize ''src-other/x'' = ''src-other/x''"
    by (simp_all add: path_eval)
  have p: "prefix (normalize ''src'') (normalize ''src-other/x'')"
    unfolding n by simp
  have j: "join [''src'', ''src-other/x''] = ''src/src-other/x''"
    by (simp add: path_eval)
  from resolvePath_prefix_keeps_candidate [OF p] p n j show ?thesis by simp
qed

section \<open>Properties of concatenation\<close>

declare concatFilesContent.simps [simp del] buildBootstrap3.simps [simp del]

lemma writeIfDist_falsy: "\<not> truthy d \<Longrightarrow> writeIfDist settings fs d text = (None, fs)"
  by (cases d) auto

lemma writeIfDist_written:
  "d \<noteq> [] \<Longrightarrow> dirname d \<notin> locked fs \<Longrightarrow> d \<notin> locked fs \<Longrightarrow>
   writeIfDist settings fs (Some d) text =
     (None, fs\<lparr>dirSet := insert (dirname d) (dirSet fs), fileText := (fileText fs)(d \<mapsto> text)\<rparr>)"
  by (simp add: mkdirp_sync_def writeFileSync_def)

lemma concat_fs_preserved:
  "snd (concatLoop settings cwd lessMod fs entries acc) = fs"
  "\<not> truthy (distPath params) \<Longrightarrow> snd (concatFilesContent settings cwd lessMod fs params) = fs"
  "snd (buildBootstrap3 settings cwd lessMod fs) = fs"
proof (induction settings cwd lessMod fs entries acc and settings cwd lessMod fs params
    and settings cwd lessMod fs rule: concatLoop_concatFilesContent_buildBootstrap3.induct)
  case (1 settings cwd lessMod fs concatedContent)
  then show ?case by simp
next
  case (2 settings cwd lessMod fs filePath rest concatedContent)
  then show ?case
    by (auto split: prod.splits sum.splits if_splits)
next
  case (3 settings cwd lessMod fs params)
  then show ?case
    by (auto simp: concatFilesContent.simps writeIfDist_falsy split: prod.splits sum.splits)
next
  case (4 settings cwd lessMod fs)
  then show ?case
    by (auto simp: buildBootstrap3.simps Let_def split: prod.splits sum.splits option.splits)
qed

lemma buildBootstrap3_pair:
  "buildBootstrap3 settings cwd lessMod fs = (fst (buildBootstrap3 settings cwd lessMod fs), fs)"
  using concat_fs_preserved(3) [of settings cwd lessMod fs] by (metis prod.collapse)

lemma concatLoop_step:
  "concatLoop settings cwd lessMod fs (filePath # rest) acc =
     (case entryContent settings cwd lessMod fs filePath of
        Inl e \<Rightarrow> (Inl e, fs)
      | Inr piece \<Rightarrow> concatLoop settings cwd lessMod fs rest (acc @ [piece]))"
proof (cases "filePath = ''bootstrap3''")
  case True
  then show ?thesis
    using buildBootstrap3_pair [of settings cwd lessMod fs]
    by (simp add: entryContent_def split: sum.splits prod.splits) (metis Pair_inject)
next
  case False
  then show ?thesis by (simp add: entryContent_def split: sum.splits)
qed

lemma concatLoop_all:
  "\<forall>q\<in>set entries. entryContent settings cwd lessMod fs q = Inr (piece q) \<Longrightarrow>
   concatLoop settings cwd lessMod fs entries acc = (Inr (acc @ map piece entries), fs)"
  by (induction entries arbitrary: acc) (simp_all add: concatLoop_step del: concatLoop.simps(2))

lemma concatLoop_first_failure:
  "\<forall>q\<in>set pre. \<exists>piece. entryContent settings cwd lessMod fs q = Inr piece \<Longrightarrow>
   entryContent settings cwd lessMod fs bad = Inl e \<Longrightarrow>
   concatLoop settings cwd lessMod fs (pre @ bad # post) acc = (Inl e, fs)"
proof (induction pre arbitrary: acc)
  case Nil
  then show ?case by (simp add: concatLoop_step del: concatLoop.simps(2))
next
  case (Cons x pre)
  from Cons.prems(1) obtain piece where "entryContent settings cwd lessMod fs x = Inr piece"
    by auto
  with Cons show ?case by (simp add: concatLoop_step del: concatLoop.simps(2))
qed

lemma literal_missing_fails:
  "p \<noteq> ''bootstrap3'' \<Longrightarrow> fileText fs p = None \<Longrightarrow>
   entryContent settings cwd lessMod fs p = Inl (IOError p)"
  by (simp add: entryContent_def)

lemma literal_failure:
  "bad \<noteq> ''bootstrap3'' \<Longrightarrow> entryContent settings cwd lessMod fs bad = Inl e \<Longrightarrow>
   fileText fs bad = None \<and> e = IOError bad"
  by (auto simp: entryContent_def split: option.splits)

lemma sampleFs_text:
  "fileText sampleFs ''a.css'' = Some ''A''" "fileText sampleFs ''b.css'' = Some ''B''"
  "fileText sampleFs ''c.css'' = Some ''C''" "fileText sampleFs ''missing.css'' = None"
  by (simp_all add: sampleFs_def)

lemma bootstrapInstalled_missing: "fileText bootstrapInstalled ''missing.css'' = None"
proof -
  have "\<not> suffix ''.less'' ''missing.css''" by (simp add: suffix_def)
  then have "''missing.css'' \<notin> set (bootstrapPaths ''/app/node_modules/bootstrap/less'')"
    using bootstrapPaths_suffix by blast
  then show ?thesis by (simp add: bootstrapInstalled_def)
qed

text \<open>
  Claim C5, as amended. When a literal path of the request names no file, the call fails
  and leaves the file system as it was: nothing is written to \<open>distPath\<close>, however many
  earlier entries were read. The entries are read in their order, and the first entry
  that fails decides the error; it stands at or before the first occurrence of the missing
  path. When it is a literal path, that path names no file and the error is its
  \<open>IOError\<close>; when it is the entry \<open>bootstrap3\<close>, the error is the one of
  \<^verbatim>\<open>buildBootstrap3\<close>.
\<close>

theorem concatFilesContent_first_failure:
  assumes "filesArr params = Some entries" and "p \<in> set entries" and "p \<noteq> ''bootstrap3''"
    and "fileText fs p = None"
  shows "\<exists>pre bad post e.
     entries = pre @ bad # post \<and>
     (\<forall>q\<in>set pre. \<exists>piece. entryContent settings cwd lessMod fs q = Inr piece) \<and>
     p \<notin> set pre \<and>
     entryContent settings cwd lessMod fs bad = Inl e \<and>
     concatFilesContent settings cwd lessMod fs params = (Inl e, fs) \<and>
     (bad \<noteq> ''bootstrap3'' \<longrightarrow> fileText fs bad = None \<and> e = IOError bad) \<and>
     (bad = ''bootstrap3'' \<longrightarrow> fst (buildBootstrap3 settings cwd lessMod fs) = Inl e)"
proof -
  let ?fails = "\<lambda>q. isl (entryContent settings cwd lessMod fs q)"
  have "?fails p" using assms(3,4) by (simp add: literal_missing_fails)
  with assms(2) have "\<exists>q\<in>set entries. ?fails q" by blast
  from split_list_first_prop [OF this] obtain pre bad post where
    split: "entries = pre @ bad # post" and bad: "?fails bad"
    and first: "\<forall>q\<in>set pre. \<not> ?fails q"
    by blast
  from bad obtain e where e: "entryContent settings cwd lessMod fs bad = Inl e"
    by (cases "entryContent settings cwd lessMod fs bad") auto
  have ok: "\<forall>q\<in>set pre. \<exists>piece. entryContent settings cwd lessMod fs q = Inr piece"
  proof
    fix q assume "q \<in> set pre"
    with first have "\<not> ?fails q" by simp
    then show "\<exists>piece. entryContent settings cwd lessMod fs q = Inr piece"
      by (cases "entryContent settings cwd lessMod fs q") auto
  qed
  have notin: "p \<notin> set pre" using first \<open>?fails p\<close> by blast
  have "concatLoop settings cwd lessMod fs entries [] = (Inl e, fs)"
    unfolding split using ok e by (rule concatLoop_first_failure)
  with assms(1) have res: "concatFilesContent settings cwd lessMod fs params = (Inl e, fs)"
    by (simp add: concatFilesContent.simps)
  have lit: "bad \<noteq> ''bootstrap3'' \<longrightarrow> fileText fs bad = None \<and> e = IOError bad"
    using e by (auto dest: literal_failure)
  have boot: "bad = ''bootstrap3'' \<longrightarrow> fst (buildBootstrap3 settings cwd lessMod fs) = Inl e"
    using e by (auto simp: entryContent_def)
  from split ok notin e res lit boot show ?thesis by blast
qed

text \<open>
  The theorem at the entries \<open>a.css\<close>, \<open>missing.css\<close>, \<open>b.css\<close>, where the first is
  read before the failure, and at the entries \<open>missing.css\<close>, \<open>bootstrap3\<close>, where the
  Bootstrap sources do not compile but the missing path comes first.
\<close>

theorem concatFilesContent_first_failure_witness:
  "concatFilesContent defaultSettings ''/app'' None sampleFs
     \<lparr>distPath = Some ''dist/all.css'', filesArr = Some [''a.css'', ''missing.css'', ''b.css'']\<rparr>
   = (Inl (IOError ''missing.css''), sampleFs) \<and>
   concatFilesContent defaultSettings ''/app'' (Some brokenLess) bootstrapInstalled
     \<lparr>distPath = Some ''dist/all.css'', filesArr = Some [''missing.css'', ''bootstrap3'']\<rparr>
   = (Inl (IOError ''missing.css''), bootstrapInstalled)"
proof -
  let ?p1 = "\<lparr>distPath = Some ''dist/all.css'',
      filesArr = Some [''a.css'', ''missing.css'', ''b.css'']\<rparr>"
  let ?p2 = "\<lparr>distPath = Some ''dist/all.css'',
      filesArr = Some [''missing.css'', ''bootstrap3'']\<rparr>"
  have "filesArr ?p1 = Some [''a.css'', ''missing.css'', ''b.css'']"
    and "''missing.css'' \<in> set [''a.css'', ''missing.css'', ''b.css'']"
    and "''missing.css'' \<noteq> ''bootstrap3''"
    and "fileText sampleFs ''missing.css'' = None"
    by (simp_all add: sampleFs_text)
  from concatFilesContent_first_failure [OF this, of defaultSettings "''/app''" None]
  obtain pre bad post e where
    split: "[''a.css'', ''missing.css'', ''b.css''] = pre @ bad # post"
    and res: "concatFilesContent defaultSettings ''/app'' None sampleFs ?p1 = (Inl e, sampleFs)"
    and lit: "bad \<noteq> ''bootstrap3'' \<longrightarrow> fileText sampleFs bad = None \<and> e = IOError bad"
    by blast
  have "bad \<in> set [''a.css'', ''missing.css'', ''b.css'']"
    unfolding split by simp
  with lit have "e = IOError ''missing.css''" by (auto simp: sampleFs_text)
  with res have 1: "concatFilesContent defaultSettings ''/app'' None sampleFs ?p1
      = (Inl (IOError ''missing.css''), sampleFs)" by simp
  have "filesArr ?p2 = Some [''missing.css'', ''bootstrap3'']"
    and "''missing.css'' \<in> set [''missing.css'', ''bootstrap3'']"
    and "''missing.css'' \<noteq> ''bootstrap3''"
    and "fileText bootstrapInstalled ''missing.css'' = None"
    by (simp_all add: bootstrapInstalled_missing)
  from concatFilesContent_first_failure [OF this, of defaultSettings "''/app''" "Some brokenLess"]
  obtain pre' bad' post' e' where
    split': "[''missing.css'', ''bootstrap3''] = pre' @ bad' # post'"
    and notin: "''missing.css'' \<notin> set pre'"
    and res': "concatFilesContent defaultSettings ''/app'' (Some brokenLess) bootstrapInstalled ?p2
        = (Inl e', bootstrapInstalled)"
    and lit': "bad' \<noteq> ''bootstrap3'' \<longrightarrow> e' = IOError bad'"
    by blast
  from split' notin have "bad' = ''missing.css''" by (cases pre') auto
  with lit' have "e' = IOError ''missing.css''" by simp
  with res' have 2: "concatFilesContent defaultSettings ''/app'' (Some brokenLess)
      bootstrapInstalled ?p2 = (Inl (IOError ''missing.css''), bootstrapInstalled)" by simp
  from 1 2 show ?thesis ..
qed

text \<open>
  Claim C5 as stated fails on the kind of the error. Bootstrap is installed and its Less
  sources do not compile: the entry \<open>bootstrap3\<close> fails first, and the call is rejected
  with the string of \<^verbatim>\<open>buildBootstrap3\<close>, although \<open>missing.css\<close> does not exist.
\<close>

theorem concatFilesContent_less_error_first:
  "fileText bootstrapInstalled ''missing.css'' = None \<and>
   fst (concatFilesContent defaultSettings ''/app'' (Some brokenLess) bootstrapInstalled
     \<lparr>distPath = Some ''dist/all.css'', filesArr = Some [''bootstrap3'', ''missing.css'']\<rparr>)
   = Inl (LessError ''Less compilation error:Unrecognised input'')"
proof -
  let ?root = "''/app/node_modules/bootstrap/less''"
  have missing: "fileText bootstrapInstalled ''missing.css'' = None"
  proof -
    have "\<not> suffix ''.less'' ''missing.css''" by (simp add: suffix_def)
    then have "''missing.css'' \<notin> set (bootstrapPaths ?root)"
      using bootstrapPaths_suffix by blast
    then show ?thesis by (simp add: bootstrapInstalled_def)
  qed
  have root: "join [''/app'', ''/node_modules/bootstrap/less''] = ?root"
    by (simp add: path_eval)
  have ex: "existsSync bootstrapInstalled ?root"
    by (simp add: existsSync_def bootstrapInstalled_def)
  have "\<forall>q\<in>set (bootstrapPaths ?root).
      entryContent defaultSettings ''/app'' (Some brokenLess) bootstrapInstalled q = Inr ((\<lambda>_. ''// less'') q)"
    using bootstrapPaths_no_token [of ?root]
    by (auto simp: entryContent_def bootstrapInstalled_def)
  then have loop: "concatLoop defaultSettings ''/app'' (Some brokenLess) bootstrapInstalled
      (bootstrapPaths ?root) [] = (Inr ([] @ map (\<lambda>_. ''// less'') (bootstrapPaths ?root)), bootstrapInstalled)"
    by (rule concatLoop_all)
  have boot: "fst (buildBootstrap3 defaultSettings ''/app'' (Some brokenLess) bootstrapInstalled)
      = Inl (LessError ''Less compilation error:Unrecognised input'')"
    by (simp add: buildBootstrap3.simps root ex concatFilesContent.simps loop brokenLess_def)
  then have "entryContent defaultSettings ''/app'' (Some brokenLess) bootstrapInstalled ''bootstrap3''
      = Inl (LessError ''Less compilation error:Unrecognised input'')"
    by (simp add: entryContent_def)
  then have "concatLoop defaultSettings ''/app'' (Some brokenLess) bootstrapInstalled
      [''bootstrap3'', ''missing.css''] [] =
      (Inl (LessError ''Less compilation error:Unrecognised input''), bootstrapInstalled)"
    by (simp add: concatLoop_step del: concatLoop.simps(2))
  then show ?thesis using missing by (simp add: concatFilesContent.simps)
qed

text \<open>
  Claim C6. The pieces are joined in the order of the entries, with one line feed
  (the character of code 10) between two of them; the text is returned, and written to
  \<open>distPath\<close> when that is given (and the directory and the file can be written). For
  three entries \<open>a\<close>, \<open>b\<close>, \<open>c\<close> it is the piece of \<open>a\<close>, a line feed, the piece of
  \<open>b\<close>, a line feed, the piece of \<open>c\<close>.
\<close>

theorem concatFilesContent_joins_with_newline:
  assumes "filesArr params = Some entries"
    and "\<forall>q\<in>set entries. entryContent settings cwd lessMod fs q = Inr (piece q)"
  shows "(\<not> truthy (distPath params) \<longrightarrow>
          concatFilesContent settings cwd lessMod fs params =
            (Inr (arrayJoin [CHR 0x0A] (map piece entries)), fs)) \<and>
         (\<forall>d. distPath params = Some d \<and> d \<noteq> [] \<and> dirname d \<notin> locked fs \<and> d \<notin> locked fs \<longrightarrow>
          concatFilesContent settings cwd lessMod fs params =
            (Inr (arrayJoin [CHR 0x0A] (map piece entries)),
             fs\<lparr>dirSet := insert (dirname d) (dirSet fs),
                fileText := (fileText fs)(d \<mapsto> arrayJoin [CHR 0x0A] (map piece entries))\<rparr>)) \<and>
         (\<forall>a b c. entries = [a, b, c] \<longrightarrow>
            (\<not> truthy (distPath params) \<longrightarrow>
             concatFilesContent settings cwd lessMod fs params =
               (Inr (piece a @ [CHR 0x0A] @ piece b @ [CHR 0x0A] @ piece c), fs)) \<and>
            (\<forall>d. distPath params = Some d \<and> d \<noteq> [] \<and> dirname d \<notin> locked fs \<and> d \<notin> locked fs \<longrightarrow>
             concatFilesContent settings cwd lessMod fs params =
               (Inr (piece a @ [CHR 0x0A] @ piece b @ [CHR 0x0A] @ piece c),
                fs\<lparr>dirSet := insert (dirname d) (dirSet fs),
                   fileText := (fileText fs)
                     (d \<mapsto> piece a @ [CHR 0x0A] @ piece b @ [CHR 0x0A] @ piece c)\<rparr>)))"
proof -
  from concatLoop_all [OF assms(2), of "[]"] assms(1)
  have loop: "concatLoop settings cwd lessMod fs
      (case filesArr params of None \<Rightarrow> [] | Some xs \<Rightarrow> xs) [] = (Inr (map piece entries), fs)"
    by simp
  have eol: "EOL = [CHR 0x0A]" by (simp add: EOL_def)
  show ?thesis
    by (auto simp: concatFilesContent.simps loop writeIfDist_falsy writeIfDist_written eol
        simp del: writeIfDist.simps)
qed

text \<open>
  The entries \<open>a.css\<close>, \<open>b.css\<close>, \<open>c.css\<close> holding \<open>A\<close>, \<open>B\<close>, \<open>C\<close>: the text is
  the five characters \<open>A\<close>, line feed, \<open>B\<close>, line feed, \<open>C\<close>.
\<close>

theorem concatFilesContent_joins_with_newline_witness:
  "concatFilesContent defaultSettings ''/app'' None sampleFs
     \<lparr>distPath = None, filesArr = Some [''a.css'', ''b.css'', ''c.css'']\<rparr>
   = (Inr [CHR ''A'', CHR 0x0A, CHR ''B'', CHR 0x0A, CHR ''C''], sampleFs) \<and>
   fst (concatFilesContent defaultSettings ''/app'' None sampleFs
     \<lparr>distPath = Some ''dist/all.css'', filesArr = Some [''a.css'', ''b.css'', ''c.css'']\<rparr>)
   = Inr [CHR ''A'', CHR 0x0A, CHR ''B'', CHR 0x0A, CHR ''C''] \<and>
   fileText (snd (concatFilesContent defaultSettings ''/app'' None sampleFs
     \<lparr>distPath = Some ''dist/all.css'', filesArr = Some [''a.css'', ''b.css'', ''c.css'']\<rparr>))
     ''dist/all.css'' = Some [CHR ''A'', CHR 0x0A, CHR ''B'', CHR 0x0A, CHR ''C'']"
proof -
  let ?piece = "\<lambda>q. if q = ''a.css'' then ''A'' else if q = ''b.css'' then ''B'' else ''C''"
  have pieces: "\<forall>q\<in>set [''a.css'', ''b.css'', ''c.css''].
      entryContent defaultSettings ''/app'' None sampleFs q = Inr (?piece q)"
    by (simp add: entryContent_def sampleFs_text)
  have d: "dirname ''dist/all.css'' = ''dist''" by (simp add: dirname_def isAbsolute_def)
  have l: "locked sampleFs = {''/proc''}" by (simp add: sampleFs_def)
  note t1 = concatFilesContent_joins_with_newline [where piece = ?piece, OF _ pieces,
      of "\<lparr>distPath = None, filesArr = Some [''a.css'', ''b.css'', ''c.css'']\<rparr>"]
  note t2 = concatFilesContent_joins_with_newline [where piece = ?piece, OF _ pieces,
      of "\<lparr>distPath = Some ''dist/all.css'', filesArr = Some [''a.css'', ''b.css'', ''c.css'']\<rparr>"]
  from t1 have 1: "concatFilesContent defaultSettings ''/app'' None sampleFs
     \<lparr>distPath = None, filesArr = Some [''a.css'', ''b.css'', ''c.css'']\<rparr>
     = (Inr [CHR ''A'', CHR 0x0A, CHR ''B'', CHR 0x0A, CHR ''C''], sampleFs)"
    by simp
  from t2 have 2: "concatFilesContent defaultSettings ''/app'' None sampleFs
     \<lparr>distPath = Some ''dist/all.css'', filesArr = Some [''a.css'', ''b.css'', ''c.css'']\<rparr>
     = (Inr [CHR ''A'', CHR 0x0A, CHR ''B'', CHR 0x0A, CHR ''C''],
        sampleFs\<lparr>dirSet := insert ''dist'' (dirSet sampleFs),
          fileText := (fileText sampleFs)(''dist/all.css'' \<mapsto>
            [CHR ''A'', CHR 0x0A, CHR ''B'', CHR 0x0A, CHR ''C''])\<rparr>)"
    by (simp add: d l)
  show ?thesis unfolding 1 2 by simp
qed

section \<open>Properties of the minifiers\<close>

lemma minifyJsContent_result:
  assumes "jsOr (content params) (readFileSync fs (srcPath params) (encoding settings)) = Inr input"
    and "uglify input = Inr js"
  shows "minifyJsContent settings uglify fs params =
     (case writeIfDist settings fs (distPath params) (code js) of
        (Some e, fs') \<Rightarrow> (Inl e, fs') | (None, fs') \<Rightarrow> (Inr js, fs'))"
  using assms by (simp add: minifyJsContent_def)

lemma minifyCssContent_result:
  assumes "jsOr (content params) (readFileSync fs (srcPath params) (encoding settings)) = Inr input"
    and "cleancss input = Inr cs"
  shows "minifyCssContent settings cleancss fs params =
     (case writeIfDist settings fs (distPath params) (styles cs) of
        (Some e, fs') \<Rightarrow> (Inl e, fs') | (None, fs') \<Rightarrow> (Inr cs, fs'))"
  using assms by (simp add: minifyCssContent_def)

text \<open>
  Claim C3, as amended. The text handed to the minifier is \<open>content\<close> when it is present
  and not empty, whatever \<open>srcPath\<close> is; when \<open>content\<close> is absent or empty, it is the
  text read from \<open>srcPath\<close>. What the minifier returns for that text is returned, and
  written to \<open>distPath\<close> when that is present and not empty (and the directory and
  the file can be written).
\<close>

theorem minify_text_source:
  assumes "(content params = Some input \<and> input \<noteq> []) \<or>
           (\<not> truthy (content params) \<and>
            readFileSync fs (srcPath params) (encoding settings) = Inr input)"
    and "uglify input = Inr js" and "cleancss input = Inr cs"
  shows "(\<not> truthy (distPath params) \<longrightarrow>
            minifyJsContent settings uglify fs params = (Inr js, fs) \<and>
            minifyCssContent settings cleancss fs params = (Inr cs, fs)) \<and>
         (\<forall>d. distPath params = Some d \<and> d \<noteq> [] \<and> dirname d \<notin> locked fs \<and> d \<notin> locked fs \<longrightarrow>
            minifyJsContent settings uglify fs params =
              (Inr js, fs\<lparr>dirSet := insert (dirname d) (dirSet fs),
                         fileText := (fileText fs)(d \<mapsto> code js)\<rparr>) \<and>
            minifyCssContent settings cleancss fs params =
              (Inr cs, fs\<lparr>dirSet := insert (dirname d) (dirSet fs),
                         fileText := (fileText fs)(d \<mapsto> styles cs)\<rparr>))"
proof -
  from assms(1)
  have t: "jsOr (content params) (readFileSync fs (srcPath params) (encoding settings)) = Inr input"
    by (cases "content params") auto
  show ?thesis
    unfolding minifyJsContent_result [where uglify = uglify and input = input, OF t assms(2)]
      minifyCssContent_result [where cleancss = cleancss and input = input, OF t assms(3)]
    by (auto simp: writeIfDist_falsy writeIfDist_written simp del: writeIfDist.simps)
qed

text \<open>
  A request with \<open>content\<close>, a \<open>srcPath\<close> that names another text, and a \<open>distPath\<close>.
\<close>

theorem minify_text_source_witness:
  "minifyJsContent defaultSettings echoUglify sampleFs
     \<lparr>distPath = Some ''dist/a.min.js'', content = Some ''var y;'', srcPath = Some ''a.js''\<rparr>
   = (Inr \<lparr>code = ''var y;'', mapJson = []\<rparr>,
      sampleFs\<lparr>dirSet := insert ''dist'' (dirSet sampleFs),
               fileText := (fileText sampleFs)(''dist/a.min.js'' \<mapsto> ''var y;'')\<rparr>) \<and>
   minifyCssContent defaultSettings echoCleanCSS sampleFs
     \<lparr>distPath = Some ''dist/a.min.js'', content = Some ''var y;'', srcPath = Some ''a.js''\<rparr>
   = (Inr \<lparr>styles = ''var y;''\<rparr>,
      sampleFs\<lparr>dirSet := insert ''dist'' (dirSet sampleFs),
               fileText := (fileText sampleFs)(''dist/a.min.js'' \<mapsto> ''var y;'')\<rparr>)"
proof -
  have d: "dirname ''dist/a.min.js'' = ''dist''" by (simp add: dirname_def isAbsolute_def)
  have l: "locked sampleFs = {''/proc''}" by (simp add: sampleFs_def)
  from minify_text_source [of "\<lparr>distPath = Some ''dist/a.min.js'', content = Some ''var y;'',
      srcPath = Some ''a.js''\<rparr>" "''var y;''" sampleFs defaultSettings echoUglify
      "\<lparr>code = ''var y;'', mapJson = []\<rparr>" echoCleanCSS "\<lparr>styles = ''var y;''\<rparr>"]
  show ?thesis by (simp add: echoUglify_def echoCleanCSS_def d l)
qed

text \<open>
  Claim C3 as stated fails for a \<open>content\<close> that is present and empty: the text of
  \<open>srcPath\<close> is minified instead, and without a \<open>srcPath\<close> the call throws.
\<close>

theorem minify_empty_content_reads_file:
  "fst (minifyJsContent defaultSettings echoUglify sampleFs
     \<lparr>distPath = None, content = Some [], srcPath = Some ''a.js''\<rparr>)
   = Inr \<lparr>code = ''var x;'', mapJson = []\<rparr> \<and>
   fst (minifyCssContent defaultSettings echoCleanCSS sampleFs
     \<lparr>distPath = None, content = Some [], srcPath = Some ''a.css''\<rparr>)
   = Inr \<lparr>styles = ''A''\<rparr> \<and>
   fst (minifyJsContent defaultSettings echoUglify sampleFs
     \<lparr>distPath = None, content = Some [], srcPath = None\<rparr>)
   = Inl (TypeError ''path must be a string'')"
  by (simp add: minifyJsContent_def minifyCssContent_def echoUglify_def echoCleanCSS_def
      sampleFs_def)

section \<open>Properties of the Sass wrapper\<close>

text \<open>
  Claim C4, on the code. A request with \<open>data\<close> and no \<open>file\<close> is rejected with the
  \<open>TypeError\<close> of \<^verbatim>\<open>fs.readFileSync(undefined)\<close>: the source never reaches the
  compiler. With both options, the compiler receives the content of the file as \<open>data\<close>.
\<close>

theorem buildCustomCssFromScss_data_not_used:
  "buildCustomCssFromScss defaultSettings echoSass sampleFs
     \<lparr>data = Some ''a{b:c}'', file = None, outputStyle = None, outFile = None,
      sourceMap = None, sourceMapContents = None\<rparr>
   = Rejected (TypeError ''path must be a string'') \<and>
   buildCustomCssFromScss defaultSettings echoSass sampleFs
     \<lparr>data = Some ''a{b:c}'', file = Some ''s.scss'', outputStyle = None, outFile = None,
      sourceMap = None, sourceMapContents = None\<rparr>
   = Resolved \<lparr>css = ''x{y:z}'', cssMap = None\<rparr>"
  by (simp add: buildCustomCssFromScss_def echoSass_def sampleFs_def)

section \<open>Properties of template rendering\<close>

lemma splitExt_append: "fst (splitExt b) @ snd (splitExt b) = b"
  by (simp add: splitExt_def split: option.splits)

lemma parse_name_ext: "name (parse p) @ ext (parse p) = base (parse p)"
  by (simp add: parse_def Let_def splitExt_append)

lemma compileHbsTemplate_unfold:
  "compileHbsTemplate settings hbs h fs params =
     readFileCallback settings hbs
       (h\<lparr>objects := (objects h)(nextAddr h \<mapsto> hbsContext settings h params),
          nextAddr := Suc (nextAddr h)\<rparr>)
       fs (resolvePath (distDir settings) (target params)) (nextAddr h)
       (readFileSync fs (Some (resolvePath (srcDir settings) (source params))) (encoding settings))"
  by (simp add: compileHbsTemplate_def allocObject_def hbsContext_def Let_def)

lemma heapAfter_readFileCallback:
  "heapAfter (readFileCallback settings hbs h fs t ref r) = h"
  by (simp add: readFileCallback_def writeFileCallback_def Let_def split: sum.splits)

lemma heapAfter_compileHbsTemplate:
  "heapAfter (compileHbsTemplate settings hbs h fs params) =
     h\<lparr>objects := (objects h)(nextAddr h \<mapsto> hbsContext settings h params),
       nextAddr := Suc (nextAddr h)\<rparr>"
  by (simp add: compileHbsTemplate_unfold heapAfter_readFileCallback)

lemma readFileCallback_resolved:
  assumes "r = Inr body" "hbs body = Inr tpl" "tpl h ref = Inr rendered"
    and "dirname t \<notin> locked fs" "t \<notin> locked fs"
  shows "readFileCallback settings hbs h fs t ref r =
     \<lparr>settled = Resolved \<lparr>targetBody = rendered, targetPath = t\<rparr>, uncaught = None,
      fsAfter = fs\<lparr>dirSet := insert (dirname t) (dirSet fs), fileText := (fileText fs)(t \<mapsto> rendered)\<rparr>,
      heapAfter = h\<rparr>"
  using assms
  by (simp add: readFileCallback_def writeFileCallback_def mkdirp_sync_def writeFileSync_def)

lemma readFileCallback_render_error:
  assumes "r = Inr body" "hbs body = Inr tpl" "tpl h ref = Inl e"
  shows "settled (readFileCallback settings hbs h fs t ref r) = Pending \<and>
         uncaught (readFileCallback settings hbs h fs t ref r) = Some e"
  using assms by (simp add: readFileCallback_def)

lemma readFileCallback_read_error:
  "readFileCallback settings hbs h fs t ref (Inl err) =
     \<lparr>settled = Rejected err, uncaught = Some (TypeError ''sourceBody is undefined''),
      fsAfter = fs, heapAfter = h\<rparr>"
  by (simp add: readFileCallback_def)

lemma readFileCallback_failure_keeps_files:
  assumes "\<forall>res. settled (readFileCallback settings hbs h fs t ref r) \<noteq> Resolved res"
  shows "fileText (fsAfter (readFileCallback settings hbs h fs t ref r)) = fileText fs"
  using assms
  by (auto simp: readFileCallback_def writeFileCallback_def mkdirp_sync_def writeFileSync_def
      Let_def split: sum.splits if_splits)

lemma readFileCallback_targetPath:
  "settled (readFileCallback settings hbs h fs t ref r) = Resolved res \<Longrightarrow> targetPath res = t"
  by (auto simp: readFileCallback_def writeFileCallback_def Let_def split: sum.splits)

lemma compileLoop_append:
  "compileLoop settings hbs h fs d (pre @ rest) acc =
     (let exit = compileLoop settings hbs h fs d pre acc in
      case settled (finished exit) of
        Resolved _ \<Rightarrow>
          compileLoop settings hbs (heapAfter (finished exit)) (fsAfter (finished exit)) d rest
            (collected exit)
      | Rejected e \<Rightarrow> exit
      | Pending \<Rightarrow> exit)"
proof (induction pre arbitrary: h fs acc)
  case Nil
  then show ?case by simp
next
  case (Cons job pre)
  obtain s t where job: "job = (s, t)" by (cases job)
  show ?case
    by (cases "settled (compileHbsTemplate settings hbs h fs \<lparr>data = d, source = s, target = t\<rparr>)")
      (simp_all add: job Cons.IH Let_def)
qed

lemma compileLoop_paths:
  "settled (finished (compileLoop settings hbs h fs d jobs acc)) = Resolved u \<Longrightarrow>
   map targetPath (collected (compileLoop settings hbs h fs d jobs acc)) =
     map targetPath acc @ map (\<lambda>(s, t). resolvePath (distDir settings) t) jobs"
proof (induction jobs arbitrary: h fs acc)
  case Nil
  then show ?case by simp
next
  case (Cons job jobs)
  obtain s t where job: "job = (s, t)" by (cases job)
  let ?out = "compileHbsTemplate settings hbs h fs \<lparr>data = d, source = s, target = t\<rparr>"
  show ?case
  proof (cases "settled ?out")
    case Pending
    with Cons.prems show ?thesis by (simp add: job Let_def)
  next
    case (Resolved res)
    then have "targetPath res = resolvePath (distDir settings) t"
      by (simp add: compileHbsTemplate_unfold readFileCallback_targetPath)
    with Cons.prems Cons.IH [of "heapAfter ?out" "fsAfter ?out" "acc @ [res]"] Resolved
    show ?thesis by (simp add: job Let_def)
  next
    case (Rejected e)
    with Cons.prems show ?thesis by (simp add: job Let_def)
  qed
qed

lemma compileHbsTemplate_failure_keeps_files:
  assumes "\<forall>res. settled (compileHbsTemplate settings hbs h fs params) \<noteq> Resolved res"
  shows "fileText (fsAfter (compileHbsTemplate settings hbs h fs params)) = fileText fs"
  using assms unfolding compileHbsTemplate_unfold by (rule readFileCallback_failure_keeps_files)

lemma defaultSettings_fields:
  "srcDir defaultSettings = ''./src''" "distDir defaultSettings = ''./dist''"
  "encoding defaultSettings = ''utf-8''"
  by (simp_all add: defaultSettings_def Build_def)

lemma sample_sources:
  "resolvePath ''./src'' ''page.hbs'' = ''src/page.hbs''"
  "resolvePath ''./src'' ''missing.hbs'' = ''src/missing.hbs''"
  by (simp_all add: path_eval)

lemma sample_targets:
  "resolvePath ''./dist'' ''page.html'' = ''dist/page.html''"
  "resolvePath ''./dist'' ''x.html'' = ''dist/x.html''"
  "resolvePath ''./dist'' ''later.html'' = ''dist/later.html''"
  "resolvePath ''./dist'' ''sub/index.html'' = ''dist/sub/index.html''"
  by (simp_all add: path_eval)

lemma sample_parse:
  "name (parse ''dist/page.html'') = ''page''" "ext (parse ''dist/page.html'') = ''.html''"
  "name (parse ''dist/sub/index.html'') = ''index''" "ext (parse ''dist/sub/index.html'') = ''.html''"
  by (simp_all add: parse_def splitExt_def lastDot_def isAbsolute_def Let_def)

lemma sample_dirname:
  "dirname ''dist/page.html'' = ''dist''" "dirname ''dist/sub/index.html'' = ''dist/sub''"
  by (simp_all add: dirname_def isAbsolute_def)

lemma sampleFs_fields:
  "fileText sampleFs ''src/page.hbs'' = Some ''Page: ''"
  "fileText sampleFs ''src/missing.hbs'' = None"
  "fileText sampleFs ''dist/later.html'' = None"
  "locked sampleFs = {''/proc''}"
  by (simp_all add: sampleFs_def)

lemma sampleHeap_fields:
  "objects sampleHeap 0 =
     Some [''title'' \<mapsto> JString ''Home'', ''fileName'' \<mapsto> JString ''caller.html'']"
  "nextAddr sampleHeap = 1"
  by (simp_all add: sampleHeap_def)

lemma compileHbsTemplate_rendered:
  assumes "readFileSync fs (Some (resolvePath (srcDir settings) (source params)))
             (encoding settings) = Inr body"
    and "hbs body = Inr tpl"
    and "tpl (heapAfter (compileHbsTemplate settings hbs h fs params)) (nextAddr h) = Inr rendered"
    and "dirname (resolvePath (distDir settings) (target params)) \<notin> locked fs"
    and "resolvePath (distDir settings) (target params) \<notin> locked fs"
  shows "compileHbsTemplate settings hbs h fs params =
     \<lparr>settled = Resolved \<lparr>targetBody = rendered,
                            targetPath = resolvePath (distDir settings) (target params)\<rparr>,
      uncaught = None,
      fsAfter = fs\<lparr>dirSet := insert (dirname (resolvePath (distDir settings) (target params)))
                          (dirSet fs),
                  fileText := (fileText fs)
                    (resolvePath (distDir settings) (target params) \<mapsto> rendered)\<rparr>,
      heapAfter = h\<lparr>objects := (objects h)(nextAddr h \<mapsto> hbsContext settings h params),
                    nextAddr := Suc (nextAddr h)\<rparr>\<rparr>"
proof -
  from assms(3)
  have "tpl (h\<lparr>objects := (objects h)(nextAddr h \<mapsto> hbsContext settings h params),
               nextAddr := Suc (nextAddr h)\<rparr>) (nextAddr h) = Inr rendered"
    by (simp only: heapAfter_compileHbsTemplate)
  with assms(1,2) show ?thesis
    unfolding compileHbsTemplate_unfold
    by (rule readFileCallback_resolved [where hbs = hbs and tpl = tpl and body = body])
      (rule assms(4), rule assms(5))
qed

lemma compileHbsTemplate_render_error:
  assumes "readFileSync fs (Some (resolvePath (srcDir settings) (source params)))
             (encoding settings) = Inr body"
    and "hbs body = Inr tpl"
    and "tpl (heapAfter (compileHbsTemplate settings hbs h fs params)) (nextAddr h) = Inl e"
  shows "settled (compileHbsTemplate settings hbs h fs params) = Pending \<and>
         uncaught (compileHbsTemplate settings hbs h fs params) = Some e"
proof -
  from assms(3)
  have "tpl (h\<lparr>objects := (objects h)(nextAddr h \<mapsto> hbsContext settings h params),
               nextAddr := Suc (nextAddr h)\<rparr>) (nextAddr h) = Inl e"
    by (simp only: heapAfter_compileHbsTemplate)
  with assms(1,2) show ?thesis
    unfolding compileHbsTemplate_unfold
    by (rule readFileCallback_render_error [where hbs = hbs and tpl = tpl and body = body])
qed

lemma pageJob_fields:
  "data pageJob = Some 0" "source pageJob = ''page.hbs''" "target pageJob = ''page.html''"
  by (simp_all add: pageJob_def)

lemma indexJob_fields:
  "data indexJob = Some 0" "source indexJob = ''page.hbs''" "target indexJob = ''sub/index.html''"
  by (simp_all add: indexJob_def)

lemma sample_read:
  "readFileSync sampleFs (Some ''src/page.hbs'') enc = Inr ''Page: ''"
  by (simp add: sampleFs_fields)

lemma sample_compile:
  "sampleHandlebars ''Page: '' = Inr (fileNameTemplate ''Page: '')"
  by (simp add: sampleHandlebars_def)

text \<open>
  Claim C7. Let the jobs before job \<open>k\<close> be rendered (the loop over them ends with
  results \<open>rs\<close>, file system \<open>fs1\<close> and heap \<open>h1\<close>) and let job \<open>k\<close> fail there: its
  promise is rejected or stays pending. Then the jobs after \<open>k\<close> play no part: the
  outcome is that of the list cut after job \<open>k\<close>, it is not a resolved promise, the
  results collected are those of the jobs before \<open>k\<close> in job order, and the files are
  those the earlier jobs left (none is written for job \<open>k\<close> or a later job, none of the
  earlier ones is taken back).
\<close>

theorem compileHbsTemplates_fail_fast:
  assumes pre: "compileLoop settings hbs h fs d pre [] =
      \<lparr>collected = rs,
       finished = \<lparr>settled = Resolved (), uncaught = None, fsAfter = fs1, heapAfter = h1\<rparr>\<rparr>"
    and fails: "\<forall>res. settled (compileHbsTemplate settings hbs h1 fs1
        \<lparr>data = d, source = failingSource, target = failingTarget\<rparr>) \<noteq> Resolved res"
  shows "compileLoop settings hbs h fs d (pre @ (failingSource, failingTarget) # post) [] =
           compileLoop settings hbs h fs d (pre @ [(failingSource, failingTarget)]) [] \<and>
         compileHbsTemplates settings hbs h fs
             \<lparr>data = d, files = pre @ (failingSource, failingTarget) # post\<rparr> =
           compileHbsTemplates settings hbs h fs
             \<lparr>data = d, files = pre @ [(failingSource, failingTarget)]\<rparr> \<and>
         (\<forall>res. settled (compileHbsTemplates settings hbs h fs
             \<lparr>data = d, files = pre @ (failingSource, failingTarget) # post\<rparr>) \<noteq> Resolved res) \<and>
         collected (compileLoop settings hbs h fs d
             (pre @ (failingSource, failingTarget) # post) []) = rs \<and>
         map targetPath rs = map (\<lambda>(s, t). resolvePath (distDir settings) t) pre \<and>
         fileText (fsAfter (compileHbsTemplates settings hbs h fs
             \<lparr>data = d, files = pre @ (failingSource, failingTarget) # post\<rparr>)) = fileText fs1"
proof -
  let ?job = "\<lparr>data = d, source = failingSource, target = failingTarget\<rparr>"
  let ?out = "compileHbsTemplate settings hbs h1 fs1 ?job"
  let ?exit = "\<lparr>collected = rs,
      finished = \<lparr>settled = (case settled ?out of Rejected e \<Rightarrow> Rejected e | _ \<Rightarrow> Pending),
        uncaught = uncaught ?out, fsAfter = fsAfter ?out, heapAfter = heapAfter ?out\<rparr>\<rparr>"
  have step: "compileLoop settings hbs h1 fs1 d ((failingSource, failingTarget) # rest) rs = ?exit"
    for rest
    using fails by (cases "settled ?out") (simp_all add: Let_def)
  have loop: "compileLoop settings hbs h fs d (pre @ (failingSource, failingTarget) # rest) [] = ?exit"
    for rest
    by (simp add: compileLoop_append [of _ _ _ _ _ pre] pre Let_def step
        del: compileLoop.simps)
  have paths: "map targetPath rs = map (\<lambda>(s, t). resolvePath (distDir settings) t) pre"
    using compileLoop_paths [of settings hbs h fs d pre "[]" "()"] pre by simp
  have files: "fileText (fsAfter ?out) = fileText fs1"
    using fails by (rule compileHbsTemplate_failure_keeps_files)
  have unresolved: "\<forall>res. (case settled ?out of Rejected e \<Rightarrow> Rejected e | _ \<Rightarrow> Pending)
      \<noteq> (Resolved res :: unit promise)"
    by (cases "settled ?out") simp_all
  show ?thesis
    using paths files unresolved
    by (cases "settled ?out") (simp_all add: compileHbsTemplates_def loop Let_def)
qed

text \<open>
  Three jobs: the first is rendered, the source of the second is missing, the third
  is never rendered.
\<close>

theorem compileHbsTemplates_fail_fast_witness:
  "settled (compileHbsTemplates defaultSettings sampleHandlebars sampleHeap sampleFs threeJobs)
     = Rejected (IOError ''src/missing.hbs'') \<and>
   collected (compileLoop defaultSettings sampleHandlebars sampleHeap sampleFs (Some 0)
      (files threeJobs) [])
     = [\<lparr>targetBody = ''Page: page.html'', targetPath = ''dist/page.html''\<rparr>] \<and>
   fileText (fsAfter (compileHbsTemplates defaultSettings sampleHandlebars sampleHeap sampleFs
      threeJobs)) ''dist/page.html'' = Some ''Page: page.html'' \<and>
   fileText (fsAfter (compileHbsTemplates defaultSettings sampleHandlebars sampleHeap sampleFs
      threeJobs)) ''dist/x.html'' = None \<and>
   fileText (fsAfter (compileHbsTemplates defaultSettings sampleHandlebars sampleHeap sampleFs
      threeJobs)) ''dist/later.html'' = None"
proof -
  let ?S = defaultSettings and ?H = sampleHandlebars
  let ?job1 = "\<lparr>data = Some 0, source = ''page.hbs'', target = ''page.html''\<rparr>"
  let ?job2 = "\<lparr>data = Some 0, source = ''missing.hbs'', target = ''x.html''\<rparr>"
  let ?r1 = "\<lparr>targetBody = ''Page: page.html'', targetPath = ''dist/page.html''\<rparr>"
  let ?h1 = "sampleHeap\<lparr>objects := (objects sampleHeap)
      (nextAddr sampleHeap \<mapsto> hbsContext ?S sampleHeap ?job1),
      nextAddr := Suc (nextAddr sampleHeap)\<rparr>"
  let ?fs1 = "sampleFs\<lparr>dirSet := insert ''dist'' (dirSet sampleFs),
      fileText := (fileText sampleFs)(''dist/page.html'' \<mapsto> ''Page: page.html'')\<rparr>"
  have ctx: "hbsContext ?S sampleHeap ?job1 ''fileName'' = Some (JString ''page.html'')"
    by (simp add: hbsContext_def defaultSettings_fields sample_targets sample_parse)
  have E1: "compileHbsTemplate ?S ?H sampleHeap sampleFs ?job1 =
      \<lparr>settled = Resolved ?r1, uncaught = None, fsAfter = ?fs1, heapAfter = ?h1\<rparr>"
    using compileHbsTemplate_rendered [of sampleFs ?S ?job1 "''Page: ''" ?H
        "fileNameTemplate ''Page: ''" sampleHeap "''Page: page.html''"] ctx
    by (simp add: defaultSettings_fields sample_sources sample_targets sample_dirname
        sampleFs_fields sample_compile heapAfter_compileHbsTemplate fileNameTemplate_def)
  have pre: "compileLoop ?S ?H sampleHeap sampleFs (Some 0) [(''page.hbs'', ''page.html'')] [] =
      \<lparr>collected = [?r1],
       finished = \<lparr>settled = Resolved (), uncaught = None, fsAfter = ?fs1, heapAfter = ?h1\<rparr>\<rparr>"
    by (simp add: E1)
  have missing: "fileText ?fs1 ''src/missing.hbs'' = None"
    by (simp add: sampleFs_fields)
  have E2: "settled (compileHbsTemplate ?S ?H ?h1 ?fs1 ?job2) = Rejected (IOError ''src/missing.hbs'')"
    using missing
    by (simp add: compileHbsTemplate_unfold defaultSettings_fields sample_sources
        readFileCallback_read_error del: fun_upd_apply)
  then have fails: "\<forall>res. settled (compileHbsTemplate ?S ?H ?h1 ?fs1 ?job2) \<noteq> Resolved res"
    by simp
  note T = compileHbsTemplates_fail_fast [OF pre fails, of "[(''page.hbs'', ''later.html'')]"]
  from T [THEN conjunct2, THEN conjunct1] have same: "compileHbsTemplates ?S ?H sampleHeap sampleFs threeJobs =
      compileHbsTemplates ?S ?H sampleHeap sampleFs
        \<lparr>data = Some 0, files = [(''page.hbs'', ''page.html''), (''missing.hbs'', ''x.html'')]\<rparr>"
    by (simp add: threeJobs_def del: compileLoop.simps)
  have two: "settled (compileHbsTemplates ?S ?H sampleHeap sampleFs
        \<lparr>data = Some 0, files = [(''page.hbs'', ''page.html''), (''missing.hbs'', ''x.html'')]\<rparr>)
      = Rejected (IOError ''src/missing.hbs'')"
    by (simp add: compileHbsTemplates_def E1 E2 Let_def)
  from T [THEN conjunct2, THEN conjunct2, THEN conjunct2, THEN conjunct1] have col: "collected (compileLoop ?S ?H sampleHeap sampleFs (Some 0) (files threeJobs) [])
      = [?r1]"
    by (simp add: threeJobs_def del: compileLoop.simps)
  from T [THEN conjunct2, THEN conjunct2, THEN conjunct2, THEN conjunct2, THEN conjunct2]
  have files: "fileText (fsAfter (compileHbsTemplates ?S ?H sampleHeap sampleFs threeJobs))
      = fileText ?fs1"
    by (simp add: threeJobs_def del: compileLoop.simps)
  have rejected: "settled (compileHbsTemplates ?S ?H sampleHeap sampleFs threeJobs)
      = Rejected (IOError ''src/missing.hbs'')"
    unfolding same by (rule two)
  show ?thesis
    unfolding rejected col files by (simp add: sampleFs_def)
qed

text \<open>
  Claim C8, on the code. The source \<open>src/missing.hbs\<close> does not exist: the promise is
  rejected with the read error, and the callback then throws a \<open>TypeError\<close> that
  nothing catches, because \<^verbatim>\<open>reject(err)\<close> is not followed by \<^verbatim>\<open>return\<close>.
\<close>

theorem compileHbsTemplate_read_failure:
  "settled (compileHbsTemplate defaultSettings sampleHandlebars sampleHeap sampleFs
      \<lparr>data = Some 0, source = ''missing.hbs'', target = ''x.html''\<rparr>)
     = Rejected (IOError ''src/missing.hbs'') \<and>
   uncaught (compileHbsTemplate defaultSettings sampleHandlebars sampleHeap sampleFs
      \<lparr>data = Some 0, source = ''missing.hbs'', target = ''x.html''\<rparr>)
     = Some (TypeError ''sourceBody is undefined'')"
  by (simp add: compileHbsTemplate_unfold defaultSettings_fields sample_sources sampleFs_fields
      readFileCallback_read_error)

text \<open>
  Claim C9. The caller's object (at address \<open>a\<close> of the heap) is the same after the
  call; the template is rendered on a new object, at the next free address, that holds the
  caller's properties and \<open>fileName\<close>, the name and extension of the resolved target
  (together its base name).
\<close>

theorem compileHbsTemplate_copies_data:
  assumes "data params = Some a" and "objects h a = Some obj" and "a < nextAddr h"
  shows "objects (heapAfter (compileHbsTemplate settings hbs h fs params)) a = Some obj \<and>
         objects (heapAfter (compileHbsTemplate settings hbs h fs params)) (nextAddr h) =
           Some (obj(''fileName'' \<mapsto>
             JString (name (parse (resolvePath (distDir settings) (target params))) @
                      ext (parse (resolvePath (distDir settings) (target params)))))) \<and>
         name (parse (resolvePath (distDir settings) (target params))) @
           ext (parse (resolvePath (distDir settings) (target params))) =
           base (parse (resolvePath (distDir settings) (target params))) \<and>
         (\<forall>body tpl rendered.
            readFileSync fs (Some (resolvePath (srcDir settings) (source params)))
              (encoding settings) = Inr body \<and>
            hbs body = Inr tpl \<and>
            tpl (heapAfter (compileHbsTemplate settings hbs h fs params)) (nextAddr h) = Inr rendered \<and>
            dirname (resolvePath (distDir settings) (target params)) \<notin> locked fs \<and>
            resolvePath (distDir settings) (target params) \<notin> locked fs \<longrightarrow>
            settled (compileHbsTemplate settings hbs h fs params) =
              Resolved \<lparr>targetBody = rendered,
                        targetPath = resolvePath (distDir settings) (target params)\<rparr>)"
proof (intro conjI allI impI)
  show "objects (heapAfter (compileHbsTemplate settings hbs h fs params)) a = Some obj"
    using assms by (simp add: heapAfter_compileHbsTemplate)
  show "objects (heapAfter (compileHbsTemplate settings hbs h fs params)) (nextAddr h) =
           Some (obj(''fileName'' \<mapsto>
             JString (name (parse (resolvePath (distDir settings) (target params))) @
                      ext (parse (resolvePath (distDir settings) (target params))))))"
    using assms by (simp add: heapAfter_compileHbsTemplate hbsContext_def ownProperties_def)
  show "name (parse (resolvePath (distDir settings) (target params))) @
           ext (parse (resolvePath (distDir settings) (target params))) =
           base (parse (resolvePath (distDir settings) (target params)))"
    by (rule parse_name_ext)
next
  fix body tpl rendered
  assume "readFileSync fs (Some (resolvePath (srcDir settings) (source params)))
              (encoding settings) = Inr body \<and>
            hbs body = Inr tpl \<and>
            tpl (heapAfter (compileHbsTemplate settings hbs h fs params)) (nextAddr h) = Inr rendered \<and>
            dirname (resolvePath (distDir settings) (target params)) \<notin> locked fs \<and>
            resolvePath (distDir settings) (target params) \<notin> locked fs"
  then show "settled (compileHbsTemplate settings hbs h fs params) =
              Resolved \<lparr>targetBody = rendered,
                        targetPath = resolvePath (distDir settings) (target params)\<rparr>"
    using compileHbsTemplate_rendered [of fs settings params body hbs tpl h rendered] by simp
qed

text \<open>
  The caller's object holds \<open>title\<close> and its own \<open>fileName\<close>; the target is
  \<open>page.html\<close>.
\<close>

theorem compileHbsTemplate_copies_data_witness:
  "objects (heapAfter (compileHbsTemplate defaultSettings sampleHandlebars sampleHeap sampleFs pageJob)) 0
     = Some [''title'' \<mapsto> JString ''Home'', ''fileName'' \<mapsto> JString ''caller.html''] \<and>
   objects (heapAfter (compileHbsTemplate defaultSettings sampleHandlebars sampleHeap sampleFs pageJob)) 1
     = Some [''title'' \<mapsto> JString ''Home'', ''fileName'' \<mapsto> JString ''page.html''] \<and>
   settled (compileHbsTemplate defaultSettings sampleHandlebars sampleHeap sampleFs pageJob)
     = Resolved \<lparr>targetBody = ''Page: page.html'', targetPath = ''dist/page.html''\<rparr>"
proof -
  let ?out = "compileHbsTemplate defaultSettings sampleHandlebars sampleHeap sampleFs pageJob"
  let ?obj = "[''title'' \<mapsto> JString ''Home'', ''fileName'' \<mapsto> JString ''caller.html'']"
  have "0 < nextAddr sampleHeap" by (simp add: sampleHeap_fields)
  from compileHbsTemplate_copies_data [OF pageJob_fields(1) sampleHeap_fields(1) this,
      of defaultSettings sampleHandlebars sampleFs]
  have A: "objects (heapAfter ?out) 0 = Some ?obj"
    and B: "objects (heapAfter ?out) 1 = Some (?obj(''fileName'' \<mapsto> JString ''page.html''))"
    and D: "\<And>body tpl rendered.
        readFileSync sampleFs (Some ''src/page.hbs'') ''utf-8'' = Inr body \<Longrightarrow>
        sampleHandlebars body = Inr tpl \<Longrightarrow>
        tpl (heapAfter ?out) 1 = Inr rendered \<Longrightarrow>
        settled ?out = Resolved \<lparr>targetBody = rendered, targetPath = ''dist/page.html''\<rparr>"
    by (simp_all add: defaultSettings_fields pageJob_fields sample_sources sample_targets
        sample_parse sample_dirname sampleHeap_fields sampleFs_fields)
  have "fileNameTemplate ''Page: '' (heapAfter ?out) 1 = Inr ''Page: page.html''"
    using B by (simp add: fileNameTemplate_def)
  from D [OF sample_read sample_compile this] A B show ?thesis by simp
qed

text \<open>
  Claim C10. Whatever \<open>data\<close> is, the object the template is rendered on has the
  \<open>fileName\<close> of the resolved target, and every other property as \<open>data\<close> has it: an
  own \<open>fileName\<close> of the caller is overridden in the copy.
\<close>

theorem compileHbsTemplate_fileName_wins:
  "\<exists>ctx. objects (heapAfter (compileHbsTemplate settings hbs h fs params)) (nextAddr h) = Some ctx \<and>
     ctx ''fileName'' =
       Some (JString (name (parse (resolvePath (distDir settings) (target params))) @
                      ext (parse (resolvePath (distDir settings) (target params))))) \<and>
     (\<forall>k. k \<noteq> ''fileName'' \<longrightarrow> ctx k = ownProperties h (data params) k) \<and>
     (\<forall>body tpl.
        readFileSync fs (Some (resolvePath (srcDir settings) (source params)))
          (encoding settings) = Inr body \<and>
        hbs body = Inr tpl \<longrightarrow>
        (\<forall>rendered.
           tpl (heapAfter (compileHbsTemplate settings hbs h fs params)) (nextAddr h) = Inr rendered \<and>
           dirname (resolvePath (distDir settings) (target params)) \<notin> locked fs \<and>
           resolvePath (distDir settings) (target params) \<notin> locked fs \<longrightarrow>
           settled (compileHbsTemplate settings hbs h fs params) =
             Resolved \<lparr>targetBody = rendered,
                       targetPath = resolvePath (distDir settings) (target params)\<rparr>) \<and>
        (\<forall>e. tpl (heapAfter (compileHbsTemplate settings hbs h fs params)) (nextAddr h) = Inl e \<longrightarrow>
           settled (compileHbsTemplate settings hbs h fs params) = Pending \<and>
           uncaught (compileHbsTemplate settings hbs h fs params) = Some e))"
proof (intro exI [of _ "hbsContext settings h params"] conjI allI impI)
  show "objects (heapAfter (compileHbsTemplate settings hbs h fs params)) (nextAddr h) =
      Some (hbsContext settings h params)"
    by (simp add: heapAfter_compileHbsTemplate)
  show "hbsContext settings h params ''fileName'' =
       Some (JString (name (parse (resolvePath (distDir settings) (target params))) @
                      ext (parse (resolvePath (distDir settings) (target params)))))"
    by (simp add: hbsContext_def)
  show "hbsContext settings h params k = ownProperties h (data params) k"
    if "k \<noteq> ''fileName''" for k
    using that by (simp add: hbsContext_def)
next
  fix body tpl rendered
  assume "readFileSync fs (Some (resolvePath (srcDir settings) (source params)))
          (encoding settings) = Inr body \<and> hbs body = Inr tpl"
    and "tpl (heapAfter (compileHbsTemplate settings hbs h fs params)) (nextAddr h) = Inr rendered \<and>
           dirname (resolvePath (distDir settings) (target params)) \<notin> locked fs \<and>
           resolvePath (distDir settings) (target params) \<notin> locked fs"
  then show "settled (compileHbsTemplate settings hbs h fs params) =
             Resolved \<lparr>targetBody = rendered,
                       targetPath = resolvePath (distDir settings) (target params)\<rparr>"
    using compileHbsTemplate_rendered [of fs settings params body hbs tpl h rendered] by simp
next
  fix body tpl e
  assume "readFileSync fs (Some (resolvePath (srcDir settings) (source params)))
          (encoding settings) = Inr body \<and> hbs body = Inr tpl"
    and "tpl (heapAfter (compileHbsTemplate settings hbs h fs params)) (nextAddr h) = Inl e"
  then have r: "settled (compileHbsTemplate settings hbs h fs params) = Pending \<and>
           uncaught (compileHbsTemplate settings hbs h fs params) = Some e"
    using compileHbsTemplate_render_error [of fs settings params body hbs tpl h e] by simp
  from r show "settled (compileHbsTemplate settings hbs h fs params) = Pending" ..
  from r show "uncaught (compileHbsTemplate settings hbs h fs params) = Some e" ..
qed

text \<open>
  The caller's object says \<open>caller.html\<close>; the template prints \<open>index.html\<close>, the
  base name of the target \<open>sub/index.html\<close>.
\<close>

theorem compileHbsTemplate_fileName_wins_witness:
  "objects sampleHeap 0
     = Some [''title'' \<mapsto> JString ''Home'', ''fileName'' \<mapsto> JString ''caller.html''] \<and>
   settled (compileHbsTemplate defaultSettings sampleHandlebars sampleHeap sampleFs indexJob)
     = Resolved \<lparr>targetBody = ''Page: index.html'', targetPath = ''dist/sub/index.html''\<rparr>"
proof -
  let ?out = "compileHbsTemplate defaultSettings sampleHandlebars sampleHeap sampleFs indexJob"
  from compileHbsTemplate_fileName_wins [of defaultSettings sampleHandlebars sampleHeap sampleFs indexJob]
  obtain ctx where
    ctx: "objects (heapAfter ?out) 1 = Some ctx" "ctx ''fileName'' = Some (JString ''index.html'')"
    and D: "\<And>body tpl rendered.
        readFileSync sampleFs (Some ''src/page.hbs'') ''utf-8'' = Inr body \<Longrightarrow>
        sampleHandlebars body = Inr tpl \<Longrightarrow>
        tpl (heapAfter ?out) 1 = Inr rendered \<Longrightarrow>
        settled ?out = Resolved \<lparr>targetBody = rendered, targetPath = ''dist/sub/index.html''\<rparr>"
    by (auto simp: defaultSettings_fields indexJob_fields sample_sources sample_targets
        sample_parse sample_dirname sampleHeap_fields sampleFs_fields)
  have "fileNameTemplate ''Page: '' (heapAfter ?out) 1 = Inr ''Page: index.html''"
    using ctx by (simp add: fileNameTemplate_def)
  from D [OF sample_read sample_compile this] sampleHeap_fields(1) show ?thesis by simp
qed

end
